theory Spec2Isabelle
  imports Complex_Main
begin

section \<open>CampGuard: AC-in limiting for a power station behind a current-limited switch\<close>

text \<open>
  A shallow embedding of \<^verbatim>\<open>src/CampGuard.js\<close>. The script keeps all of its data in the
  two globals \<^verbatim>\<open>CFG\<close> and \<^verbatim>\<open>S\<close> and reacts to a 1 Hz timer, to switch
  events, to MQTT messages and to RPC replies. Here every handler is a function
  from the state before to the state after, together with the list of requests
  it sends to its host (MQTT publications, RPC calls, subscriptions).

  Conventions of the model:
  \<^item> A JavaScript number is a \<^typ>\<open>real\<close>, the value of the double; \<^verbatim>\<open>NaN\<close> and the
    infinities are left out. The sums, differences and the product that the
    restore logic and the optimizer compute are rounded to the nearest double, as
    the machine rounds them (\<open>js_add\<close>, \<open>js_sub\<close>, \<open>js_mul\<close> below); comparisons,
    \<^verbatim>\<open>Math.abs\<close>, \<^verbatim>\<open>Math.max\<close>, \<^verbatim>\<open>Math.floor\<close> and \<^verbatim>\<open>Math.round\<close> are exact on
    doubles, and the quotient and product of \<^verbatim>\<open>roundQ\<close> are taken exact. Timestamps
    are \<^typ>\<open>int\<close>, since every one of them is \<^verbatim>\<open>nowS()\<close> (a \<^verbatim>\<open>Math.floor\<close>) or the
    literal 0.
  \<^item> \<^verbatim>\<open>nowS()\<close> reads the clock; each handler receives the reading as its argument
    \<open>t\<close>, one reading for the whole run of the handler.
  \<^item> \<^verbatim>\<open>log\<close> and \<^verbatim>\<open>dbg\<close> only print, so they and the fields \<^verbatim>\<open>CFG.name\<close> and
    \<^verbatim>\<open>CFG.debugMode\<close> are left out.
\<close>

subsection \<open>Values received from the host\<close>

text \<open>
  Event payloads, parsed MQTT messages and RPC results are JavaScript values built
  from JSON. An object is the list of its entries, keys distinct.
\<close>

datatype json =
    JNull
  | JBool bool
  | JNum real
  | JStr string
  | JArr "json list"
  | JObj "(string \<times> json) list"

text \<open>
  \<^verbatim>\<open>v.k\<close> for a value other than \<^verbatim>\<open>null\<close>; \<open>None\<close> is \<^verbatim>\<open>undefined\<close>. None of the names
  the script reads is a built-in property of a string, number, boolean or array.
  Reading a property of \<^verbatim>\<open>null\<close> throws; the callers below branch on that case
  before they call \<open>get_prop\<close>.
\<close>

fun get_prop :: "json \<Rightarrow> string \<Rightarrow> json option" where
  "get_prop (JObj kvs) k = map_of kvs k"
| "get_prop _ k = None"

fun truthy :: "json \<Rightarrow> bool" where
  "truthy JNull = False"
| "truthy (JBool b) = b"
| "truthy (JNum x) = (x \<noteq> 0)"
| "truthy (JStr s) = (s \<noteq> [])"
| "truthy (JArr _) = True"
| "truthy (JObj _) = True"

text \<open>
  The operator \<^verbatim>\<open>a || b\<close>: on two values that may be undefined, and on a value
  that may be undefined and one that is defined.
\<close>

definition js_or :: "json option \<Rightarrow> json option \<Rightarrow> json option" where
  "js_or a b = (case a of None \<Rightarrow> b | Some v \<Rightarrow> if truthy v then a else b)"

definition or_else :: "json option \<Rightarrow> json \<Rightarrow> json" where
  "or_else a b = (case a of None \<Rightarrow> b | Some v \<Rightarrow> if truthy v then v else b)"

subsection \<open>Configuration and state\<close>

record config =
  ecoPrefix :: string
  initChargeW :: real
  minChargeW :: real
  maxChargeW :: real
  safetyBufferW :: real
  quantW :: real
  minDeltaW :: real
  windowSec :: int
  optimizeEverySec :: int
  restoreDelaySec :: int
  mqttTimeoutSec :: int
  eventTimeoutSec :: int
  quotaMaxAgeSec :: int
  setThrottleSec :: int

text \<open>The configuration as the script ships it.\<close>

definition CFG :: config where
  "CFG = \<lparr> ecoPrefix = ''ecoflow/'',
           initChargeW = 400, minChargeW = 400, maxChargeW = 2400,
           safetyBufferW = 100, quantW = 10, minDeltaW = 20,
           windowSec = 10, optimizeEverySec = 10, restoreDelaySec = 10,
           mqttTimeoutSec = 30, eventTimeoutSec = 30, quotaMaxAgeSec = 10,
           setThrottleSec = 5 \<rparr>"

text \<open>One entry \<^verbatim>\<open>{ts, power}\<close> of the rolling window.\<close>

record sample =
  ts :: int
  power_w :: real

record state =
  on :: bool
  oc :: bool
  voltageV :: real
  currentLimitA :: real
  lastShellyEvtTS :: int
  ocSinceTS :: int
  measurements :: "sample list"
  maxP10s :: real
  lastTrackedPower :: real
  lastTrackedTS :: int
  efAcOutW :: real
  efStandbyW :: real
  efChargeW :: real
  lastQuotaTS :: int
  lastSetTS :: int
  lastOptTS :: int
  lastRestoreTryTS :: int
  shellyH :: "nat option"
  mqttQuotaH :: "nat option"
  mqttReplyH :: "nat option"
  heartbeat :: "nat option"

text \<open>The initial value of \<^verbatim>\<open>S\<close>.\<close>

definition S0 :: state where
  "S0 = \<lparr> on = False, oc = False, voltageV = 230, currentLimitA = 6,
          lastShellyEvtTS = 0, ocSinceTS = 0,
          measurements = [], maxP10s = 0, lastTrackedPower = -1, lastTrackedTS = 0,
          efAcOutW = 0, efStandbyW = 20, efChargeW = 400, lastQuotaTS = 0,
          lastSetTS = 0, lastOptTS = 0, lastRestoreTryTS = 0,
          shellyH = None, mqttQuotaH = None, mqttReplyH = None, heartbeat = None \<rparr>"

text \<open>
  What a handler asks of its host. \<open>MqttPublish topic w\<close> is the SET message whose
  \<^verbatim>\<open>params.cfgPlugInInfoAcInChgPowMax\<close> is \<open>w\<close>; its other fields are constants and a
  random request id.
\<close>

datatype action =
    MqttPublish string real
  | SwitchSet bool
  | SwitchGetStatus
  | SwitchGetConfig
  | RemoveEventHandler nat
  | AddEventHandler
  | MqttUnsubscribe nat
  | MqttSubscribe string
  | TimerClear nat
  | TimerSet

subsection \<open>Utilities\<close>

definition clamp :: "real \<Rightarrow> real \<Rightarrow> real \<Rightarrow> real" where
  "clamp v a b = (if v < a then a else (if v > b then b else v))"

text \<open>\<^verbatim>\<open>Math.round\<close>: the nearest integer, a tie going up.\<close>

definition math_round :: "real \<Rightarrow> real" where
  "math_round x = of_int \<lfloor>x + 1 / 2\<rfloor>"

definition math_floor :: "real \<Rightarrow> real" where
  "math_floor x = of_int \<lfloor>x\<rfloor>"

text \<open>
  Arithmetic on doubles (IEEE 754 binary64). The machine gives the exact sum,
  difference or product of two doubles rounded to the nearest double, a tie going
  to the neighbour with the even significand. \<open>binade x\<close> is the exponent \<open>k\<close>
  with \<open>2 powi k \<le> x < 2 powi (k + 1)\<close> of a positive \<open>x\<close>, \<open>round_even\<close> is that
  rounding to an integer, and \<open>dround\<close> rounds a real to 53 significant bits, with
  the fixed spacing \<open>2 powi - 1074\<close> of the subnormal range; a result beyond the
  largest double, which the machine makes an infinity, is left out. A double is
  its own \<open>dround\<close>. The operations round their operands too, so that a real
  which is not a double stands for the double nearest to it, the one the host's
  parser makes of a decimal literal such as 4.1.
\<close>

function binade :: "real \<Rightarrow> int" where
  "binade x =
     (if x \<le> 0 then 0
      else if 2 \<le> x then binade (x / 2) + 1
      else if x < 1 then binade (x * 2) - 1
      else 0)"
  by pat_completeness auto
termination
proof (relation "measure (\<lambda>x. nat \<bar>\<lfloor>log 2 x\<rfloor>\<bar>)")
  show "wf (measure (\<lambda>x. nat \<bar>\<lfloor>log 2 x\<rfloor>\<bar>))" by simp
next
  fix x :: real
  assume "\<not> x \<le> 0" and x: "2 \<le> x"
  then have l: "log 2 (x / 2) = log 2 x - 1"
    by (simp add: log_divide)
  from x have "1 \<le> log 2 x"
    by (simp add: le_log_iff)
  then have "1 \<le> \<lfloor>log 2 x\<rfloor>" by (simp add: le_floor_iff)
  then show "(x / 2, x) \<in> measure (\<lambda>x. nat \<bar>\<lfloor>log 2 x\<rfloor>\<bar>)"
    by (simp add: l)
next
  fix x :: real
  assume p: "\<not> x \<le> 0" and "\<not> 2 \<le> x" and x: "x < 1"
  then have l: "log 2 (x * 2) = log 2 x + 1"
    by (simp add: log_mult)
  define L where "L = \<lfloor>log 2 x\<rfloor>"
  from p x have "log 2 x < 0" by simp
  then have n: "L < 0" unfolding L_def by (simp add: floor_less_iff)
  have m: "\<lfloor>log 2 (x * 2)\<rfloor> = L + 1" unfolding l L_def by simp
  from n have "nat \<bar>L + 1\<bar> < nat \<bar>L\<bar>" by simp
  then show "(x * 2, x) \<in> measure (\<lambda>x. nat \<bar>\<lfloor>log 2 x\<rfloor>\<bar>)"
    unfolding in_measure m L_def [symmetric] .
qed

declare binade.simps [simp del]

definition round_even :: "real \<Rightarrow> int" where
  "round_even x =
     (let f = \<lfloor>x\<rfloor>; r = x - of_int f
      in if r < 1 / 2 then f else if r > 1 / 2 then f + 1 else if even f then f else f + 1)"

definition dround :: "real \<Rightarrow> real" where
  "dround x =
     (if x = 0 then 0
      else let e = max (binade \<bar>x\<bar> - 52) (- 1074)
           in of_int (round_even (x / 2 powi e)) * 2 powi e)"

definition js_add :: "real \<Rightarrow> real \<Rightarrow> real" where
  "js_add x y = dround (dround x + dround y)"

definition js_sub :: "real \<Rightarrow> real \<Rightarrow> real" where
  "js_sub x y = dround (dround x - dround y)"

definition js_mul :: "real \<Rightarrow> real \<Rightarrow> real" where
  "js_mul x y = dround (dround x * dround y)"

text \<open>
  \<^verbatim>\<open>Math.round(w/CFG.quantW)*CFG.quantW\<close>. A step of 0 makes the script compute with
  \<^verbatim>\<open>NaN\<close>; the model is the script only for a step other than 0.
\<close>

definition roundQ :: "config \<Rightarrow> real \<Rightarrow> real" where
  "roundQ cfg w = math_round (w / quantW cfg) * quantW cfg"

subsection \<open>Rolling window\<close>

text \<open>
  The loop of \<^verbatim>\<open>updateMaxP10s\<close>, with its two accumulators \<^verbatim>\<open>maxp\<close> and \<^verbatim>\<open>kept\<close>.
\<close>

fun scan_window :: "int \<Rightarrow> sample list \<Rightarrow> real \<Rightarrow> sample list \<Rightarrow> real \<times> sample list" where
  "scan_window cutoff [] maxp kept = (maxp, kept)"
| "scan_window cutoff (m # ms) maxp kept =
     (if ts m > cutoff
      then scan_window cutoff ms (if power_w m > maxp then power_w m else maxp) (kept @ [m])
      else scan_window cutoff ms maxp kept)"

definition updateMaxP10s :: "config \<Rightarrow> int \<Rightarrow> state \<Rightarrow> state" where
  "updateMaxP10s cfg t s =
     (let cutoff = t - windowSec cfg;
          (maxp, kept) = scan_window cutoff (measurements s) 0 []
      in s\<lparr>measurements := kept, maxP10s := maxp\<rparr>)"

definition trackPower :: "config \<Rightarrow> real \<Rightarrow> int \<Rightarrow> state \<Rightarrow> state" where
  "trackPower cfg powerW t s =
     (if powerW = lastTrackedPower s \<and> t = lastTrackedTS s then s
      else updateMaxP10s cfg t
             (s\<lparr>lastTrackedPower := powerW, lastTrackedTS := t,
                measurements := measurements s @ [\<lparr>ts = t, power_w = powerW\<rparr>]\<rparr>))"

definition clearWindow :: "state \<Rightarrow> state" where
  "clearWindow s =
     s\<lparr>measurements := [], maxP10s := 0, lastTrackedPower := -1, lastTrackedTS := 0\<rparr>"

subsection \<open>Limits and the SET command\<close>

definition maxGridW :: "state \<Rightarrow> real" where
  "maxGridW s = math_floor (js_mul (currentLimitA s) (voltageV s))"

text \<open>
  \<^verbatim>\<open>setEF\<close> returns whether the command went out, the state after, and what it
  published.
\<close>

definition setEF :: "config \<Rightarrow> real \<Rightarrow> int \<Rightarrow> state \<Rightarrow> bool \<times> state \<times> action list" where
  "setEF cfg targetW t s =
     (if t - lastSetTS s < setThrottleSec cfg then (False, s, [])
      else
        let targetW' = clamp (roundQ cfg targetW) (minChargeW cfg) (maxChargeW cfg)
        in (True, s\<lparr>efChargeW := targetW', lastSetTS := t\<rparr>,
            [MqttPublish (ecoPrefix cfg @ ''set'') targetW']))"

subsection \<open>Optimization (normal operation)\<close>

definition doOptimize :: "config \<Rightarrow> int \<Rightarrow> state \<Rightarrow> state \<times> action list" where
  "doOptimize cfg t s =
     (let limitW = maxGridW s;
          other = (if maxP10s s > 0 \<and> on s
                   then (let other = js_sub (maxP10s s) (efChargeW s)
                         in if other < 0 \<or> other > 2000
                            then js_add (efAcOutW s) (efStandbyW s)
                            else other)
                   else js_add (efAcOutW s) (efStandbyW s));
          other = max 0 (math_round other);
          target = js_sub (js_sub limitW other) (safetyBufferW cfg);
          target = clamp (roundQ cfg target) (minChargeW cfg) (maxChargeW cfg)
      in if \<bar>js_sub target (efChargeW s)\<bar> \<ge> minDeltaW cfg
         then (let (sent, s', out) = setEF cfg target t s in (s', out))
         else (s, []))"

subsection \<open>Restore logic (only while the latch is set)\<close>

text \<open>
  \<^verbatim>\<open>tryRestore\<close> up to the point where it has sent \<^verbatim>\<open>Switch.Set\<close>; the callback of
  that call runs later, as a handler of its own, with \<open>e\<close> telling whether the host
  reported an error.
\<close>

definition tryRestore :: "config \<Rightarrow> int \<Rightarrow> state \<Rightarrow> state \<times> action list" where
  "tryRestore cfg t s =
     (if \<not> oc s then (s, [])
      else if t - ocSinceTS s < restoreDelaySec cfg then (s, [])
      else if t - lastRestoreTryTS s < 3 then (s, [])
      else
        let s1 = s\<lparr>lastRestoreTryTS := t\<rparr>
        in if t - lastQuotaTS s1 > quotaMaxAgeSec cfg then (s1, [])
           else
             let expected = js_add (js_add (initChargeW cfg) (efAcOutW s1)) (efStandbyW s1);
                 limitW = maxGridW s1
             in if expected \<ge> limitW then (s1, [])
                else
                  let (sent, s2, out) = setEF cfg (initChargeW cfg) t s1
                  in if \<not> sent then (s2, out)
                     else (s2, out @ [SwitchSet True]))"

definition switchSetDone :: "bool \<Rightarrow> int \<Rightarrow> state \<Rightarrow> state" where
  "switchSetDone e t s = (if \<not> e then s\<lparr>lastOptTS := t, lastSetTS := t\<rparr> else s)"

subsection \<open>Light polling\<close>

text \<open>
  The two polls send one RPC each; the reply arrives later with the result object
  \<open>r\<close> (the entries of a JSON object) and the error flag \<open>e\<close>.
\<close>

definition pollCurrentLimit :: "action list" where
  "pollCurrentLimit = [SwitchGetConfig]"

definition pollCurrentLimitDone :: "(string \<times> json) list \<Rightarrow> bool \<Rightarrow> state \<Rightarrow> state" where
  "pollCurrentLimitDone r e s =
     (if e then s
      else case map_of r ''current_limit'' of
             Some (JNum x) \<Rightarrow> (if x \<noteq> currentLimitA s then s\<lparr>currentLimitA := x\<rparr> else s)
           | _ \<Rightarrow> s)"

definition pollStatusOnce :: "action list" where
  "pollStatusOnce = [SwitchGetStatus]"

definition pollStatusOnceDone :: "(string \<times> json) list \<Rightarrow> bool \<Rightarrow> state \<Rightarrow> state" where
  "pollStatusOnceDone r e s =
     (if e then s
      else
        let s1 = (case map_of r ''voltage'' of Some (JNum v) \<Rightarrow> s\<lparr>voltageV := v\<rparr> | _ \<Rightarrow> s)
        in (case map_of r ''output'' of Some (JBool b) \<Rightarrow> s1\<lparr>on := b\<rparr> | _ \<Rightarrow> s1))"

subsection \<open>Switch events\<close>

definition handleToggle :: "json \<Rightarrow> state \<Rightarrow> state" where
  "handleToggle info s =
     (case get_prop info ''state'' of
        Some (JBool b) \<Rightarrow> (let s1 = s\<lparr>on := b\<rparr> in if \<not> on s1 then clearWindow s1 else s1)
      | _ \<Rightarrow> s)"

definition handlePower :: "config \<Rightarrow> json \<Rightarrow> int \<Rightarrow> state \<Rightarrow> state" where
  "handlePower cfg info t s =
     (if on s
      then (case get_prop info ''apower'' of Some (JNum p) \<Rightarrow> trackPower cfg p t s | _ \<Rightarrow> s)
      else s)"

definition handleOvercurrent :: "int \<Rightarrow> state \<Rightarrow> state" where
  "handleOvercurrent t s = clearWindow (s\<lparr>oc := True, ocSinceTS := t, on := False\<rparr>)"

definition handleOvercurrentClear :: "state \<Rightarrow> state" where
  "handleOvercurrentClear s = s\<lparr>oc := False\<rparr>"

text \<open>
  The function that \<^verbatim>\<open>registerShellyHandler\<close> registers, run on the event \<open>ev\<close>. The
  \<^verbatim>\<open>switch\<close> compares with \<^verbatim>\<open>===\<close>, so only a string selects a case.
\<close>

definition shellyEvent :: "config \<Rightarrow> json \<Rightarrow> int \<Rightarrow> state \<Rightarrow> state \<times> action list" where
  "shellyEvent cfg ev t s =
     (if \<not> truthy ev then (s, [])
      else case get_prop ev ''info'' of
        None \<Rightarrow> (s, [])
      | Some info \<Rightarrow>
          if \<not> truthy info \<or> get_prop info ''component'' \<noteq> Some (JStr ''switch:0'') then (s, [])
          else
            let s1 = s\<lparr>lastShellyEvtTS := t\<rparr>;
                et = or_else (get_prop info ''event'') (JStr [])
            in if et = JStr ''toggle'' then (handleToggle info s1, [])
               else if et = JStr ''power_measurement'' \<or> et = JStr ''power_update''
                 then (handlePower cfg info t s1, [])
               else if et = JStr ''overcurrent'' then (handleOvercurrent t s1, [])
               else if et = JStr ''overcurrent_clear'' then (handleOvercurrentClear s1, [])
               else if et = JStr ''config_changed'' then (s1, pollCurrentLimit)
               else (s1, []))"

text \<open>
  \<^verbatim>\<open>registerShellyHandler\<close>: drop the old handler, if any, and add the new one; the
  host returns the handle \<open>h\<close>.
\<close>

definition registerShellyHandler :: "nat \<Rightarrow> state \<Rightarrow> state \<times> action list" where
  "registerShellyHandler h s =
     (let out = (case shellyH s of Some old \<Rightarrow> [RemoveEventHandler old] | None \<Rightarrow> [])
      in (s\<lparr>shellyH := Some h\<rparr>, out @ [AddEventHandler]))"

subsection \<open>MQTT handlers\<close>

text \<open>
  The quota callback, run on a message whose \<^verbatim>\<open>JSON.parse\<close> gave \<open>parsed\<close>; \<open>None\<close>
  is a message that does not parse. Reading \<^verbatim>\<open>data.param\<close> of \<^verbatim>\<open>null\<close> throws as
  well, and the \<^verbatim>\<open>catch\<close> block of the callback takes both.
\<close>

definition quotaMessage :: "json option \<Rightarrow> int \<Rightarrow> state \<Rightarrow> state" where
  "quotaMessage parsed t s =
     (let s1 = s\<lparr>lastQuotaTS := t\<rparr>
      in case parsed of
           None \<Rightarrow> s1
         | Some data \<Rightarrow>
             if data = JNull then s1
             else
               let d = or_else (js_or (get_prop data ''param'') (get_prop data ''params'')) data;
                   p = (if truthy d then d else JObj []);
                   s2 = (case get_prop p ''powGetAcHvOut'' of
                           Some (JNum x) \<Rightarrow> s1\<lparr>efAcOutW := max 0 \<bar>x\<bar>\<rparr>
                         | _ \<Rightarrow> (case get_prop p ''powOutSumW'' of
                                  Some (JNum y) \<Rightarrow> s1\<lparr>efAcOutW := max 0 y\<rparr>
                                | _ \<Rightarrow> s1))
               in (case get_prop p ''outputPower'' of
                     Some (JNum z) \<Rightarrow> s2\<lparr>efStandbyW := max 20 z\<rparr>
                   | _ \<Rightarrow> s2))"

text \<open>The reply callback only logs.\<close>

definition replyMessage :: "json option \<Rightarrow> state \<Rightarrow> state" where
  "replyMessage parsed s = s"

definition registerMqttHandlers :: "config \<Rightarrow> nat \<Rightarrow> nat \<Rightarrow> state \<Rightarrow> state \<times> action list" where
  "registerMqttHandlers cfg hq hr s =
     (let out1 = (case mqttQuotaH s of Some old \<Rightarrow> [MqttUnsubscribe old] | None \<Rightarrow> []);
          out2 = (case mqttReplyH s of Some old \<Rightarrow> [MqttUnsubscribe old] | None \<Rightarrow> [])
      in (s\<lparr>mqttQuotaH := Some hq, mqttReplyH := Some hr\<rparr>,
          out1 @ out2 @ [MqttSubscribe (ecoPrefix cfg @ ''quota''),
                         MqttSubscribe (ecoPrefix cfg @ ''set_reply'')]))"

subsection \<open>Heartbeat\<close>

text \<open>
  What the host supplies to one run of \<^verbatim>\<open>tick\<close>: the clock reading and the handles
  it would return for a new event handler and for the two new subscriptions.
\<close>

record host =
  now :: int
  newShellyH :: nat
  newQuotaH :: nat
  newReplyH :: nat

text \<open>Part 1 of \<^verbatim>\<open>tick\<close>: the two watchdogs.\<close>

definition watchdogs :: "config \<Rightarrow> host \<Rightarrow> state \<Rightarrow> state \<times> action list" where
  "watchdogs cfg h s =
     (let t = now h;
          (s1, out1) =
            (if t - lastShellyEvtTS s > eventTimeoutSec cfg
             then (let (s', out) = registerShellyHandler (newShellyH h) s
                   in (s'\<lparr>lastShellyEvtTS := t\<rparr>, out @ pollStatusOnce))
             else (s, []));
          (s2, out2) =
            (if t - lastQuotaTS s1 > mqttTimeoutSec cfg
             then registerMqttHandlers cfg (newQuotaH h) (newReplyH h) s1
             else (s1, []))
      in (s2, out1 @ out2))"

text \<open>\<^verbatim>\<open>tick\<close>: the watchdogs, then parts 2 to 4.\<close>

definition tick :: "config \<Rightarrow> host \<Rightarrow> state \<Rightarrow> state \<times> action list" where
  "tick cfg h s =
     (let t = now h;
          (s2, out12) = watchdogs cfg h s;
          s3 = updateMaxP10s cfg t s2
      in if oc s3
         then (let (s4, out3) = tryRestore cfg t s3 in (s4, out12 @ out3))
         else if on s3 \<and> t - lastOptTS s3 \<ge> optimizeEverySec cfg
           then (let (s4, out4) = doOptimize cfg t s3 in (s4\<lparr>lastOptTS := t\<rparr>, out12 @ out4))
           else (s3, out12))"

subsection \<open>Start\<close>

text \<open>
  \<^verbatim>\<open>init\<close>, run once when the script starts; \<open>ht\<close> is the handle the host returns
  for the timer. \<^verbatim>\<open>if (S.heartbeat)\<close> is false for \<^verbatim>\<open>null\<close> and for the number 0.
\<close>

definition init :: "config \<Rightarrow> host \<Rightarrow> nat \<Rightarrow> state \<Rightarrow> state \<times> action list" where
  "init cfg h ht s =
     (let t = now h;
          s1 = s\<lparr>lastQuotaTS := t, lastShellyEvtTS := t, lastOptTS := t\<rparr>;
          (s2, out1) = registerMqttHandlers cfg (newQuotaH h) (newReplyH h) s1;
          (s3, out2) = registerShellyHandler (newShellyH h) s2;
          out3 = (case heartbeat s3 of
                    Some old \<Rightarrow> if old \<noteq> 0 then [TimerClear old] else []
                  | None \<Rightarrow> [])
      in (s3\<lparr>heartbeat := Some ht\<rparr>,
          out1 @ out2 @ pollStatusOnce @ pollCurrentLimit @ out3 @ [TimerSet]))"

subsection \<open>The handlers as one step function\<close>

text \<open>
  The script runs one handler at a time, each to its end. An event of the model is
  one such run: the start of the script, the timer, a switch event, a message on
  one of the two topics, or the reply to one of the three RPCs.
\<close>

datatype event =
    Init host nat
  | Tick host
  | Shelly json int
  | Quota "json option" int
  | Reply "json option"
  | SwitchSetReply bool int
  | StatusReply "(string \<times> json) list" bool
  | ConfigReply "(string \<times> json) list" bool

fun step :: "config \<Rightarrow> event \<Rightarrow> state \<Rightarrow> state \<times> action list" where
  "step cfg (Init h ht) s = init cfg h ht s"
| "step cfg (Tick h) s = tick cfg h s"
| "step cfg (Shelly ev t) s = shellyEvent cfg ev t s"
| "step cfg (Quota parsed t) s = (quotaMessage parsed t s, [])"
| "step cfg (Reply parsed) s = (replyMessage parsed s, [])"
| "step cfg (SwitchSetReply e t) s = (switchSetDone e t s, [])"
| "step cfg (StatusReply r e) s = (pollStatusOnceDone r e s, [])"
| "step cfg (ConfigReply r e) s = (pollCurrentLimitDone r e s, [])"

text \<open>The state after a sequence of events, first event first.\<close>

fun run :: "config \<Rightarrow> event list \<Rightarrow> state \<Rightarrow> state" where
  "run cfg [] s = s"
| "run cfg (e # es) s = run cfg es (fst (step cfg e s))"

subsection \<open>Vocabulary of the properties\<close>

text \<open>\<open>v\<close> is a whole multiple of the step \<open>q\<close>.\<close>

definition multiple_of :: "real \<Rightarrow> real \<Rightarrow> bool" where
  "multiple_of q v = (\<exists>k::int. v = of_int k * q)"

text \<open>
  Quantizing and clamping in the words of the specification, written with the
  operations of HOL alone: the multiple of the step \<open>q\<close> nearest to \<open>x\<close> (a tie
  going up), a value brought into the interval from \<open>lo\<close> to \<open>hi\<close>, and the two
  together with the step and the bounds of a configuration, which is what the
  command gateway does to a raw target.
\<close>

definition nearest_multiple :: "real \<Rightarrow> real \<Rightarrow> real" where
  "nearest_multiple q x = of_int \<lfloor>x / q + 1 / 2\<rfloor> * q"

definition bounded :: "real \<Rightarrow> real \<Rightarrow> real \<Rightarrow> real" where
  "bounded lo hi v = (if v < lo then lo else if hi < v then hi else v)"

definition spec_command :: "config \<Rightarrow> real \<Rightarrow> real" where
  "spec_command cfg w =
     bounded (minChargeW cfg) (maxChargeW cfg) (nearest_multiple (quantW cfg) w)"

text \<open>
  The optimizer in the words of its specification. The limit is the floor of the
  product of current limit and voltage. The load that is not the charger is the
  rolling peak less the commanded charge when the peak is positive (the switch
  being on), unless that is negative or above 2000 W, and the sum of the two
  telemetry values otherwise; it is clamped to at least 0 and then rounded to the
  nearest integer. The target is the limit less that load and the safety buffer,
  quantized and clamped. Sums, differences and the product are the machine's.
\<close>

definition spec_limit :: "state \<Rightarrow> real" where
  "spec_limit s = of_int \<lfloor>js_mul (currentLimitA s) (voltageV s)\<rfloor>"

definition spec_other :: "state \<Rightarrow> real" where
  "spec_other s =
     of_int \<lfloor>max 0
       (if maxP10s s > 0
        then (if js_sub (maxP10s s) (efChargeW s) < 0 \<or> js_sub (maxP10s s) (efChargeW s) > 2000
              then js_add (efAcOutW s) (efStandbyW s)
              else js_sub (maxP10s s) (efChargeW s))
        else js_add (efAcOutW s) (efStandbyW s)) + 1 / 2\<rfloor>"

definition spec_target :: "config \<Rightarrow> state \<Rightarrow> real" where
  "spec_target cfg s =
     bounded (minChargeW cfg) (maxChargeW cfg)
       (nearest_multiple (quantW cfg)
          (js_sub (js_sub (spec_limit s) (spec_other s)) (safetyBufferW cfg)))"

text \<open>
  The payload \<^verbatim>\<open>ev.info\<close> of a switch event that passes the guard of the event
  handler, and the kind of event it announces.
\<close>

definition accepted_info :: "json \<Rightarrow> json option" where
  "accepted_info ev =
     (if truthy ev
      then (case get_prop ev ''info'' of
              None \<Rightarrow> None
            | Some info \<Rightarrow>
                if truthy info \<and> get_prop info ''component'' = Some (JStr ''switch:0'')
                then Some info else None)
      else None)"

definition event_kind :: "json \<Rightarrow> json" where
  "event_kind info = or_else (get_prop info ''event'') (JStr [])"

definition notification :: "string \<Rightarrow> json \<Rightarrow> bool" where
  "notification k ev =
     (case accepted_info ev of None \<Rightarrow> False | Some info \<Rightarrow> event_kind info = JStr k)"

text \<open>The fault-trip and the fault-clear notification among the events.\<close>

fun is_trip :: "event \<Rightarrow> bool" where
  "is_trip (Shelly ev t) = notification ''overcurrent'' ev"
| "is_trip _ = False"

fun is_clear :: "event \<Rightarrow> bool" where
  "is_clear (Shelly ev t) = notification ''overcurrent_clear'' ev"
| "is_clear _ = False"

text \<open>\<^verbatim>\<open>typeof v === "number"\<close> and \<^verbatim>\<open>typeof v === "boolean"\<close>, with the value.\<close>

definition num_of :: "json option \<Rightarrow> real option" where
  "num_of a = (case a of Some (JNum x) \<Rightarrow> Some x | _ \<Rightarrow> None)"

definition bool_of :: "json option \<Rightarrow> bool option" where
  "bool_of a = (case a of Some (JBool b) \<Rightarrow> Some b | _ \<Rightarrow> None)"

text \<open>
  The parameter map of a telemetry message:
  \<^verbatim>\<open>data.param || data.params || data || {}\<close>.
\<close>

definition param_map :: "json \<Rightarrow> json" where
  "param_map data =
     (let d = or_else (js_or (get_prop data ''param'') (get_prop data ''params'')) data
      in if truthy d then d else JObj [])"

text \<open>The rolling window holds no sample and the peak is 0.\<close>

definition window_empty :: "state \<Rightarrow> bool" where
  "window_empty s = (measurements s = [] \<and> maxP10s s = 0)"

text \<open>The power notifications among the events.\<close>

fun is_power :: "event \<Rightarrow> bool" where
  "is_power (Shelly ev t) =
     (notification ''power_measurement'' ev \<or> notification ''power_update'' ev)"
| "is_power _ = False"

text \<open>
  The four conditions under which \<^verbatim>\<open>tryRestore\<close> goes on to \<^verbatim>\<open>setEF\<close>: the restore
  delay has passed since the trip, 3 s have passed since the last attempt, the
  telemetry is at most \<^verbatim>\<open>quotaMaxAgeSec\<close> old, and the expected draw is below the
  floor of the product of current limit and voltage. The sums and the product are
  the machine's.
\<close>

definition restore_ok :: "config \<Rightarrow> int \<Rightarrow> state \<Rightarrow> bool" where
  "restore_ok cfg t s =
     (t - ocSinceTS s \<ge> restoreDelaySec cfg
      \<and> t - lastRestoreTryTS s \<ge> 3
      \<and> t - lastQuotaTS s \<le> quotaMaxAgeSec cfg
      \<and> js_add (js_add (initChargeW cfg) (efAcOutW s)) (efStandbyW s)
          < of_int \<lfloor>js_mul (currentLimitA s) (voltageV s)\<rfloor>)"

text \<open>
  A sequence of \<^verbatim>\<open>trackPower\<close> calls, each a pair of the power and the clock reading
  of the call; the calls that qualify at time \<open>tn\<close>, being younger than the window
  length; and a call as the window entry it records.
\<close>

definition record_all :: "config \<Rightarrow> (real \<times> int) list \<Rightarrow> state \<Rightarrow> state" where
  "record_all cfg calls s = foldl (\<lambda>s c. trackPower cfg (fst c) (snd c) s) s calls"

definition qualifying :: "config \<Rightarrow> int \<Rightarrow> (real \<times> int) list \<Rightarrow> (real \<times> int) list" where
  "qualifying cfg tn calls = filter (\<lambda>c. tn - snd c < windowSec cfg) calls"

definition as_sample :: "real \<times> int \<Rightarrow> sample" where
  "as_sample c = \<lparr>ts = snd c, power_w = fst c\<rparr>"

section \<open>Properties\<close>

subsection \<open>Arithmetic on doubles\<close>

text \<open>The binade is the floor of the binary logarithm.\<close>

lemma binade_log: "0 < x \<Longrightarrow> binade x = \<lfloor>log 2 x\<rfloor>"
proof (induction x rule: binade.induct)
  case (1 x)
  show ?case
  proof (cases "2 \<le> x")
    case True
    with 1 have "binade (x / 2) = \<lfloor>log 2 (x / 2)\<rfloor>" by simp
    moreover from True have "log 2 (x / 2) = log 2 x - 1" by (simp add: log_divide)
    ultimately show ?thesis using True 1(3) by (subst binade.simps) simp
  next
    case False
    show ?thesis
    proof (cases "x < 1")
      case True
      with 1 False have "binade (x * 2) = \<lfloor>log 2 (x * 2)\<rfloor>" by simp
      moreover from True 1(3) have "log 2 (x * 2) = log 2 x + 1" by (simp add: log_mult)
      ultimately show ?thesis using True False 1(3) by (subst binade.simps) simp
    next
      case ge: False
      with False 1(3) have "0 \<le> log 2 x" "log 2 x < 1"
        by (simp_all add: log_less_iff)
      then have "\<lfloor>log 2 x\<rfloor> = 0" by linarith
      with ge False 1(3) show ?thesis by (subst binade.simps) simp
    qed
  qed
qed

lemma dround_log:
  "dround x =
     (if x = 0 then 0
      else let e = max (\<lfloor>log 2 \<bar>x\<bar>\<rfloor> - 52) (- 1074)
           in of_int (round_even (x / 2 powi e)) * 2 powi e)"
  by (simp add: dround_def binade_log)

lemma round_even_int [simp]: "round_even (of_int m) = m"
  by (simp add: round_even_def)

text \<open>The rounding of a real whose binade is known.\<close>

lemma dround_binade:
  assumes "2 powi k \<le> \<bar>x\<bar>" and "\<bar>x\<bar> < 2 powi (k + 1)" and "- 1022 \<le> k"
  shows "dround x = of_int (round_even (x / 2 powi (k - 52))) * 2 powi (k - 52)"
proof -
  have "(0::real) < 2 powi k" by simp
  with assms(1) have pos: "0 < \<bar>x\<bar>" by linarith
  have p1: "2 powr (of_int k) = (2::real) powi k"
    by (simp add: powr_real_of_int')
  have p2: "2 powr (of_int (k + 1)) = (2::real) powi (k + 1)"
    by (rule powr_real_of_int') simp_all
  have "\<lfloor>log 2 \<bar>x\<bar>\<rfloor> = k"
    using floor_log_eq_powr_iff [of "\<bar>x\<bar>" 2 k] pos assms(1,2) p1 p2 by simp
  moreover from pos have "x \<noteq> 0" by simp
  moreover from assms(3) have "max (k - 52) (- 1074) = k - 52" by simp
  ultimately show ?thesis by (simp only: dround_log Let_def if_False)
qed

lemma dround_eval:
  assumes "2 ^ n \<le> \<bar>x\<bar>" and "\<bar>x\<bar> < 2 * 2 ^ n" and "n \<le> 52"
  shows "dround x = of_int (round_even (x * 2 ^ (52 - n))) / 2 ^ (52 - n)"
proof -
  define m where "m = 52 - n"
  with assms(3) have k: "int n - 52 = - int m" by simp
  have a: "(2::real) powi int n = 2 ^ n" by simp
  have b: "(2::real) powi (int n + 1) = 2 * 2 ^ n"
    by (simp add: power_int_add)
  have c: "(2::real) powi (int n - 52) = 1 / 2 ^ m"
    unfolding k by (simp add: power_int_minus field_simps)
  have "dround x = of_int (round_even (x / 2 powi (int n - 52))) * 2 powi (int n - 52)"
    by (rule dround_binade) (use assms a b in simp_all)
  then show ?thesis unfolding c m_def by simp
qed

text \<open>
  A double is its own rounding: here for the doubles \<open>m / 2 ^ j\<close> with a
  significand \<open>m\<close> of at most 53 bits, among them the integers below \<open>2 ^ 53\<close>.
\<close>

lemma dround_dyadic:
  assumes m: "\<bar>m\<bar> < 2 ^ 53" and j: "j \<le> 1022"
  shows "dround (of_int m / 2 ^ j) = of_int m / 2 ^ j"
proof (cases "m = 0")
  case True
  then show ?thesis by (simp add: dround_def)
next
  case False
  define x :: real where "x = of_int m / 2 ^ j"
  define L where "L = \<lfloor>log 2 \<bar>x\<bar>\<rfloor>"
  from False have m1: "1 \<le> \<bar>m\<bar>" by simp
  have ax: "\<bar>x\<bar> = of_int \<bar>m\<bar> / 2 ^ j" by (simp add: x_def)
  from m1 have "1 / 2 ^ j \<le> \<bar>x\<bar>"
    unfolding ax by (simp add: divide_right_mono)
  then have lo: "2 powi (- int j) \<le> \<bar>x\<bar>"
    by (simp add: power_int_minus field_simps)
  have "(0::real) < 2 powi (- int j)" by simp
  with lo have pos: "0 < \<bar>x\<bar>" by linarith
  from m have "real_of_int \<bar>m\<bar> < 2 ^ 53"
    by (metis of_int_less_numeral_power_cancel_iff)
  then have "\<bar>x\<bar> < 2 ^ 53 / 2 ^ j"
    unfolding ax by (simp add: divide_strict_right_mono)
  then have hi: "\<bar>x\<bar> < 2 powi (53 - int j)"
    by (simp add: power_int_diff)
  have b2: "(1::real) < 2" by simp
  have p: "2 powr (of_int k) = (2::real) powi k" for k
    by (rule powr_real_of_int') simp_all
  from lo have "2 powr (of_int (- int j)) \<le> \<bar>x\<bar>"
    by (simp only: p)
  then have "of_int (- int j) \<le> log 2 \<bar>x\<bar>"
    by (simp only: le_log_iff [OF b2 pos])
  then have L1: "- int j \<le> L" unfolding L_def by (simp only: le_floor_iff)
  from hi have "\<bar>x\<bar> < 2 powr (of_int (53 - int j))"
    by (simp only: p)
  then have "log 2 \<bar>x\<bar> < of_int (53 - int j)"
    by (simp only: log_less_iff [OF b2 pos])
  then have L2: "L < 53 - int j" unfolding L_def by (simp only: floor_less_iff)
  from L1 j have e: "max (L - 52) (- 1074) = L - 52" by simp
  define d where "d = nat (52 - int j - L)"
  with L2 have dd: "L - 52 = - int j - int d" by simp
  have pw: "(2::real) powi (L - 52) = 1 / (2 ^ j * 2 ^ d)"
    unfolding dd by (simp add: power_int_diff power_int_minus field_simps)
  have "x / 2 powi (L - 52) = of_int (m * 2 ^ d)"
    unfolding pw x_def by simp
  then have "of_int (round_even (x / 2 powi (L - 52))) * 2 powi (L - 52) = x"
    by (simp only: round_even_int) (simp add: pw x_def)
  moreover from pos have "x \<noteq> 0" by simp
  ultimately have "dround x = x"
    by (simp only: dround_log Let_def if_False e L_def [symmetric])
  then show ?thesis by (simp only: x_def)
qed

lemma dround_numeral [simp]:
  "numeral n < (2::real) ^ 53 \<Longrightarrow> dround (numeral n) = numeral n"
  using dround_dyadic [of "numeral n" 0] by simp

lemma dround_neg_numeral [simp]:
  "numeral n < (2::real) ^ 53 \<Longrightarrow> dround (- numeral n) = - numeral n"
  using dround_dyadic [of "- numeral n" 0] by simp

lemma dround_0 [simp]: "dround 0 = 0"
  by (simp add: dround_def)

lemmas js_defs = js_add_def js_sub_def js_mul_def

text \<open>
  Products at concrete values. 6 * 230 and 6 * 230.25 are exact. 4.1 is not a
  double: the machine multiplies the double nearest to it by 230 and rounds the
  product to 942.9999999999999, below 943, where the product of the reals is 943.
  In 10 * 230.2 (230.2 is 1151 / 5) the rounding goes up, to 2302, where the
  product of 10 and the double nearest to 230.2 is below 2302.
\<close>

lemma js_mul_6_230: "js_mul 6 230 = 1380"
  by (simp add: js_mul_def)

lemma js_mul_6_230_25: "js_mul 6 (921 / 4) = 2763 / 2"
proof -
  have a: "dround (921 / 4) = 921 / 4"
    using dround_dyadic [of 921 2] by simp
  have b: "dround (6 * (921 / 4)) = 2763 / 2"
    using dround_dyadic [of 2763 1] by simp
  have "js_mul 6 (921 / 4) = dround (dround 6 * dround (921 / 4))"
    by (simp only: js_mul_def)
  also have "\<dots> = dround (6 * (921 / 4))"
    by (simp only: a) simp
  also note b
  finally show ?thesis .
qed

lemma js_mul_41_230: "js_mul (41 / 10) 230 = 8294715719942143 / 2 ^ 43"
proof -
  have a: "dround (41 / 10) = 4616189618054758 / 2 ^ 50"
    using dround_eval [of 2 "41 / 10"] by (simp add: round_even_def Let_def)
  have c: "dround (4616189618054758 / 2 ^ 50 * 230) = 8294715719942143 / 2 ^ 43"
    using dround_eval [of 9 "4616189618054758 / 2 ^ 50 * 230"]
    by (simp add: round_even_def Let_def)
  have "js_mul (41 / 10) 230 = dround (dround (41 / 10) * dround 230)"
    by (simp only: js_mul_def)
  also have "\<dots> = dround (4616189618054758 / 2 ^ 50 * 230)"
    by (simp only: a) simp
  also note c
  finally show ?thesis .
qed

lemma js_mul_10_230_2: "js_mul 10 (1151 / 5) = 2302"
proof -
  have a: "dround (1151 / 5) = 8099442454849126 / 2 ^ 45"
    using dround_eval [of 7 "1151 / 5"] by (simp add: round_even_def Let_def)
  have c: "dround (10 * (8099442454849126 / 2 ^ 45)) = 2302"
    using dround_eval [of 11 "10 * (8099442454849126 / 2 ^ 45)"]
    by (simp add: round_even_def Let_def)
  have "js_mul 10 (1151 / 5) = dround (dround 10 * dround (1151 / 5))"
    by (simp only: js_mul_def)
  also have "\<dots> = dround (10 * (8099442454849126 / 2 ^ 45))"
    by (simp only: a) simp
  also note c
  finally show ?thesis .
qed

lemma maxGridW_examples:
  "maxGridW (S0\<lparr>currentLimitA := 41 / 10\<rparr>) = 942"
  "maxGridW (S0\<lparr>currentLimitA := 10, voltageV := 1151 / 5\<rparr>) = 2302"
  "maxGridW S0 = 1380"
proof -
  show "maxGridW (S0\<lparr>currentLimitA := 41 / 10\<rparr>) = 942"
    by (simp add: maxGridW_def S0_def js_mul_41_230 math_floor_def)
  show "maxGridW (S0\<lparr>currentLimitA := 10, voltageV := 1151 / 5\<rparr>) = 2302"
    by (simp add: maxGridW_def S0_def js_mul_10_230_2 math_floor_def)
  show "maxGridW S0 = 1380"
    by (simp add: maxGridW_def S0_def js_mul_6_230 math_floor_def)
qed

subsection \<open>Quantization and clamping\<close>

lemma roundQ_multiple: "multiple_of (quantW cfg) (roundQ cfg w)"
  unfolding roundQ_def math_round_def multiple_of_def by blast

lemma clamp_cases:
  "clamp v a b = a \<or> clamp v a b = b \<or> (clamp v a b = v \<and> a \<le> v \<and> v \<le> b)"
  by (auto simp: clamp_def)

lemma clamp_bounds: "a \<le> b \<Longrightarrow> a \<le> clamp v a b \<and> clamp v a b \<le> b"
  by (auto simp: clamp_def)

text \<open>
  For any configuration whose bounds are ordered and are themselves multiples of the
  step, a quantized and clamped value is a multiple of the step within the bounds.
\<close>

lemma clamp_roundQ_general:
  assumes "minChargeW cfg \<le> maxChargeW cfg"
    and "multiple_of (quantW cfg) (minChargeW cfg)"
    and "multiple_of (quantW cfg) (maxChargeW cfg)"
  shows "multiple_of (quantW cfg) (clamp (roundQ cfg w) (minChargeW cfg) (maxChargeW cfg))
       \<and> minChargeW cfg \<le> clamp (roundQ cfg w) (minChargeW cfg) (maxChargeW cfg)
       \<and> clamp (roundQ cfg w) (minChargeW cfg) (maxChargeW cfg) \<le> maxChargeW cfg"
  using assms clamp_cases[of "roundQ cfg w" "minChargeW cfg" "maxChargeW cfg"]
    roundQ_multiple[of cfg w] clamp_bounds[of "minChargeW cfg" "maxChargeW cfg" "roundQ cfg w"]
  by auto

lemma CFG_bounds_ordered: "minChargeW CFG \<le> maxChargeW CFG"
  by (simp add: CFG_def)

lemma CFG_min_multiple: "multiple_of (quantW CFG) (minChargeW CFG)"
proof -
  have "(400::real) = of_int 40 * 10" by simp
  then show ?thesis unfolding multiple_of_def CFG_def
    by (simp only: config.simps) blast
qed

lemma CFG_max_multiple: "multiple_of (quantW CFG) (maxChargeW CFG)"
proof -
  have "(2400::real) = of_int 240 * 10" by simp
  then show ?thesis unfolding multiple_of_def CFG_def
    by (simp only: config.simps) blast
qed

subsection \<open>The command gateway\<close>

text \<open>
  C4. A call of \<^verbatim>\<open>setEF\<close> less than \<^verbatim>\<open>setThrottleSec\<close> after the last accepted one
  returns false, publishes nothing and leaves the state as it was. Any other call
  returns true, publishes exactly one message, records the quantized and clamped
  value as \<^verbatim>\<open>efChargeW\<close> and stamps \<^verbatim>\<open>lastSetTS\<close>. Hence a second call within the
  throttle interval of an accepted first one is rejected, and \<^verbatim>\<open>efChargeW\<close> and
  \<^verbatim>\<open>lastSetTS\<close> stay as the first call set them.
\<close>

theorem setEF_throttle:
  "(t - lastSetTS s < setThrottleSec cfg \<longrightarrow> setEF cfg w t s = (False, s, []))
 \<and> (\<not> t - lastSetTS s < setThrottleSec cfg \<longrightarrow>
      setEF cfg w t s =
        (True,
         s\<lparr>efChargeW := clamp (roundQ cfg w) (minChargeW cfg) (maxChargeW cfg), lastSetTS := t\<rparr>,
         [MqttPublish (ecoPrefix cfg @ ''set'')
            (clamp (roundQ cfg w) (minChargeW cfg) (maxChargeW cfg))]))
 \<and> (setEF cfg w t s = (True, s1, out1) \<and> t2 - t < setThrottleSec cfg \<longrightarrow>
      setEF cfg w2 t2 s1 = (False, s1, [])
      \<and> efChargeW s1 = clamp (roundQ cfg w) (minChargeW cfg) (maxChargeW cfg)
      \<and> lastSetTS s1 = t)"
  by (auto simp: setEF_def Let_def split: if_splits)

theorem setEF_throttle_witness:
  "setEF CFG 980 3 S0 = (False, S0, [])
 \<and> setEF CFG 980 100 S0
     = (True, S0\<lparr>efChargeW := 980, lastSetTS := 100\<rparr>, [MqttPublish ''ecoflow/set'' 980])
 \<and> setEF CFG 1200 102 (S0\<lparr>efChargeW := 980, lastSetTS := 100\<rparr>)
     = (False, S0\<lparr>efChargeW := 980, lastSetTS := 100\<rparr>, [])"
proof -
  have r: "clamp (roundQ CFG 980) (minChargeW CFG) (maxChargeW CFG) = 980"
    by (simp add: CFG_def roundQ_def math_round_def clamp_def)
  have a: "(3::int) - lastSetTS S0 < setThrottleSec CFG"
    by (simp add: S0_def CFG_def)
  have b: "\<not> (100::int) - lastSetTS S0 < setThrottleSec CFG"
    by (simp add: S0_def CFG_def)
  have c: "(102::int) - 100 < setThrottleSec CFG"
    by (simp add: CFG_def)
  have p: "ecoPrefix CFG @ ''set'' = ''ecoflow/set''"
    by (simp add: CFG_def)
  from a setEF_throttle [of 3 S0 CFG 980]
  have 1: "setEF CFG 980 3 S0 = (False, S0, [])" by blast
  from b setEF_throttle [of 100 S0 CFG 980]
  have 2: "setEF CFG 980 100 S0
     = (True, S0\<lparr>efChargeW := 980, lastSetTS := 100\<rparr>, [MqttPublish ''ecoflow/set'' 980])"
    unfolding r p by blast
  from 2 c setEF_throttle [of 100 S0 CFG 980 "S0\<lparr>efChargeW := 980, lastSetTS := 100\<rparr>"
      "[MqttPublish ''ecoflow/set'' 980]" 102 1200]
  have 3: "setEF CFG 1200 102 (S0\<lparr>efChargeW := 980, lastSetTS := 100\<rparr>)
     = (False, S0\<lparr>efChargeW := 980, lastSetTS := 100\<rparr>, [])" by blast
  from 1 2 3 show ?thesis by blast
qed

text \<open>
  C5. With the configuration of the script, whatever the raw target, the value that
  an accepted \<^verbatim>\<open>setEF\<close> publishes is the value it records as \<^verbatim>\<open>efChargeW\<close>, and it
  is a multiple of \<^verbatim>\<open>quantW\<close> between \<^verbatim>\<open>minChargeW\<close> and \<^verbatim>\<open>maxChargeW\<close>.
\<close>

theorem setEF_commanded_value:
  "setEF CFG w t s = (True, s', out) \<Longrightarrow>
     multiple_of (quantW CFG) (efChargeW s')
   \<and> minChargeW CFG \<le> efChargeW s' \<and> efChargeW s' \<le> maxChargeW CFG
   \<and> out = [MqttPublish (ecoPrefix CFG @ ''set'') (efChargeW s')]"
  using clamp_roundQ_general [OF CFG_bounds_ordered CFG_min_multiple CFG_max_multiple, of w]
  by (auto simp: setEF_def Let_def split: if_splits)

theorem setEF_commanded_value_witness:
  "setEF CFG (- 5000) 100 S0
     = (True, S0\<lparr>efChargeW := 400, lastSetTS := 100\<rparr>, [MqttPublish ''ecoflow/set'' 400])
 \<and> multiple_of (quantW CFG) 400 \<and> minChargeW CFG \<le> 400 \<and> 400 \<le> maxChargeW CFG
 \<and> setEF CFG (10 ^ 12 + 7) 100 S0
     = (True, S0\<lparr>efChargeW := 2400, lastSetTS := 100\<rparr>, [MqttPublish ''ecoflow/set'' 2400])
 \<and> multiple_of (quantW CFG) 2400 \<and> minChargeW CFG \<le> 2400 \<and> 2400 \<le> maxChargeW CFG"
proof -
  have lo: "setEF CFG (- 5000) 100 S0
     = (True, S0\<lparr>efChargeW := 400, lastSetTS := 100\<rparr>, [MqttPublish ''ecoflow/set'' 400])"
    by (simp add: setEF_def CFG_def S0_def roundQ_def math_round_def clamp_def)
  have hi: "setEF CFG (10 ^ 12 + 7) 100 S0
     = (True, S0\<lparr>efChargeW := 2400, lastSetTS := 100\<rparr>, [MqttPublish ''ecoflow/set'' 2400])"
    by (simp add: setEF_def CFG_def S0_def roundQ_def math_round_def clamp_def)
  from setEF_commanded_value [OF lo] setEF_commanded_value [OF hi] lo hi
  show ?thesis by simp
qed

subsection \<open>The optimizer\<close>

lemma max_round_commute: "max 0 (math_round x) = of_int \<lfloor>max 0 x + 1 / 2\<rfloor>"
proof (cases "x < 0")
  case True
  then have "\<lfloor>x + 1 / 2\<rfloor> \<le> 0" by linarith
  then have "math_round x \<le> 0" by (simp add: math_round_def)
  moreover have "\<lfloor>(0::real) + 1 / 2\<rfloor> = 0" by simp
  ultimately show ?thesis using True by (simp add: max_def)
next
  case False
  then have "0 \<le> \<lfloor>x + 1 / 2\<rfloor>" by linarith
  then have "0 \<le> math_round x" by (simp add: math_round_def)
  then show ?thesis using False by (simp add: max_def math_round_def)
qed

text \<open>
  C3. With the switch on, \<^verbatim>\<open>doOptimize\<close> computes the target of the specification:
  \<open>spec_target\<close>, the floored limit less \<open>spec_other\<close> and the safety buffer,
  quantized to the multiple of \<^verbatim>\<open>quantW\<close> nearest to it and clamped between
  \<^verbatim>\<open>minChargeW\<close> and \<^verbatim>\<open>maxChargeW\<close>. When the target differs from \<^verbatim>\<open>efChargeW\<close> by at
  least \<^verbatim>\<open>minDeltaW\<close> and the gateway does not throttle, it publishes one command
  with the target (quantized and clamped once more by the gateway), records it and
  stamps \<^verbatim>\<open>lastSetTS\<close>; in every other case it sends nothing and changes nothing.
  So it publishes a command only if the difference is at least \<^verbatim>\<open>minDeltaW\<close>.
\<close>

theorem doOptimize_spec:
  "on s \<Longrightarrow>
     doOptimize cfg t s =
       (if \<bar>js_sub (spec_target cfg s) (efChargeW s)\<bar> \<ge> minDeltaW cfg
           \<and> \<not> t - lastSetTS s < setThrottleSec cfg
        then (s\<lparr>efChargeW := spec_command cfg (spec_target cfg s), lastSetTS := t\<rparr>,
              [MqttPublish (ecoPrefix cfg @ ''set'') (spec_command cfg (spec_target cfg s))])
        else (s, []))
   \<and> (snd (doOptimize cfg t s) \<noteq> []
        \<longrightarrow> \<bar>js_sub (spec_target cfg s) (efChargeW s)\<bar> \<ge> minDeltaW cfg)"
proof -
  assume on: "on s"
  define raw where "raw =
       (if maxP10s s > 0
        then (if js_sub (maxP10s s) (efChargeW s) < 0 \<or> js_sub (maxP10s s) (efChargeW s) > 2000
              then js_add (efAcOutW s) (efStandbyW s)
              else js_sub (maxP10s s) (efChargeW s))
        else js_add (efAcOutW s) (efStandbyW s))"
  have so: "spec_other s = of_int \<lfloor>max 0 raw + 1 / 2\<rfloor>"
    by (simp only: spec_other_def raw_def)
  have code_other:
    "(if maxP10s s > 0 \<and> on s
      then (let other = js_sub (maxP10s s) (efChargeW s)
            in if other < 0 \<or> other > 2000 then js_add (efAcOutW s) (efStandbyW s)
               else other)
      else js_add (efAcOutW s) (efStandbyW s)) = raw"
    using on by (simp add: raw_def Let_def)
  have cmd: "clamp (roundQ cfg w) (minChargeW cfg) (maxChargeW cfg) = spec_command cfg w" for w
    by (simp add: clamp_def roundQ_def math_round_def spec_command_def nearest_multiple_def
        bounded_def)
  have lim: "maxGridW s = spec_limit s"
    by (simp add: maxGridW_def math_floor_def spec_limit_def)
  have tgt: "clamp (roundQ cfg (js_sub (js_sub (maxGridW s) (max 0 (math_round raw)))
                                  (safetyBufferW cfg)))
               (minChargeW cfg) (maxChargeW cfg) = spec_target cfg s"
    by (simp only: cmd lim spec_command_def spec_target_def so max_round_commute)
  have eq: "doOptimize cfg t s =
       (if \<bar>js_sub (spec_target cfg s) (efChargeW s)\<bar> \<ge> minDeltaW cfg
           \<and> \<not> t - lastSetTS s < setThrottleSec cfg
        then (s\<lparr>efChargeW := spec_command cfg (spec_target cfg s), lastSetTS := t\<rparr>,
              [MqttPublish (ecoPrefix cfg @ ''set'') (spec_command cfg (spec_target cfg s))])
        else (s, []))"
    apply (simp only: doOptimize_def)
    apply (simp only: code_other)
    apply (simp only: Let_def tgt)
    apply (simp add: setEF_def Let_def cmd)
    done
  show ?thesis unfolding eq by simp
qed

lemmas spec_defs = spec_target_def spec_other_def spec_limit_def spec_command_def
  nearest_multiple_def bounded_def

theorem doOptimize_spec_witness:
  "on (S0\<lparr>on := True, maxP10s := 1260, efChargeW := 960\<rparr>)
 \<and> spec_limit (S0\<lparr>on := True, maxP10s := 1260, efChargeW := 960\<rparr>) = 1380
 \<and> spec_other (S0\<lparr>on := True, maxP10s := 1260, efChargeW := 960\<rparr>) = 300
 \<and> spec_target CFG (S0\<lparr>on := True, maxP10s := 1260, efChargeW := 960\<rparr>) = 980
 \<and> doOptimize CFG 100 (S0\<lparr>on := True, maxP10s := 1260, efChargeW := 960\<rparr>)
     = (S0\<lparr>on := True, maxP10s := 1260, efChargeW := 980, lastSetTS := 100\<rparr>,
        [MqttPublish ''ecoflow/set'' 980])
 \<and> spec_target CFG (S0\<lparr>on := True, maxP10s := 1275, efChargeW := 975\<rparr>) = 980
 \<and> doOptimize CFG 100 (S0\<lparr>on := True, maxP10s := 1275, efChargeW := 975\<rparr>)
     = (S0\<lparr>on := True, maxP10s := 1275, efChargeW := 975\<rparr>, [])
 \<and> spec_limit (S0\<lparr>on := True, currentLimitA := 41 / 10, efAcOutW := 8\<rparr>) = 942
 \<and> spec_other (S0\<lparr>on := True, currentLimitA := 41 / 10, efAcOutW := 8\<rparr>) = 28
 \<and> spec_target CFG (S0\<lparr>on := True, currentLimitA := 41 / 10, efAcOutW := 8\<rparr>) = 810
 \<and> doOptimize CFG 100 (S0\<lparr>on := True, currentLimitA := 41 / 10, efAcOutW := 8\<rparr>)
     = (S0\<lparr>on := True, currentLimitA := 41 / 10, efAcOutW := 8, efChargeW := 810,
           lastSetTS := 100\<rparr>,
        [MqttPublish ''ecoflow/set'' 810])
 \<and> spec_limit (S0\<lparr>on := True, currentLimitA := 16\<rparr>) = 3680
 \<and> spec_target CFG (S0\<lparr>on := True, currentLimitA := 16\<rparr>) = 2400
 \<and> doOptimize CFG 100 (S0\<lparr>on := True, currentLimitA := 16\<rparr>)
     = (S0\<lparr>on := True, currentLimitA := 16, efChargeW := 2400, lastSetTS := 100\<rparr>,
        [MqttPublish ''ecoflow/set'' 2400])"
proof -
  let ?a = "S0\<lparr>on := True, maxP10s := 1260, efChargeW := 960\<rparr>"
  let ?d = "S0\<lparr>on := True, currentLimitA := 16\<rparr>"
  let ?b = "S0\<lparr>on := True, maxP10s := 1275, efChargeW := 975\<rparr>"
  let ?c = "S0\<lparr>on := True, currentLimitA := 41 / 10, efAcOutW := 8\<rparr>"
  have on: "on ?a" "on ?b" "on ?c" "on ?d" by simp_all
  have la: "spec_limit ?a = 1380" and lb: "spec_limit ?b = 1380"
    by (simp_all add: spec_limit_def S0_def js_mul_6_230)
  have lc: "spec_limit ?c = 942"
    by (simp add: spec_limit_def S0_def js_mul_41_230)
  have ld: "spec_limit ?d = 3680"
    by (simp add: spec_limit_def S0_def js_mul_def)
  have od: "spec_other ?d = 20"
    by (simp add: spec_other_def S0_def js_defs)
  have td: "spec_target CFG ?d = 2400"
    by (simp add: spec_target_def ld od) (simp add: CFG_def js_defs nearest_multiple_def bounded_def)
  have oa: "spec_other ?a = 300" and ob: "spec_other ?b = 300" and oc: "spec_other ?c = 28"
    by (simp_all add: spec_other_def S0_def js_defs)
  have ta: "spec_target CFG ?a = 980"
    by (simp add: spec_target_def la oa) (simp add: CFG_def js_defs nearest_multiple_def bounded_def)
  have tb: "spec_target CFG ?b = 980"
    by (simp add: spec_target_def lb ob) (simp add: CFG_def js_defs nearest_multiple_def bounded_def)
  have tc: "spec_target CFG ?c = 810"
    by (simp add: spec_target_def lc oc) (simp add: CFG_def js_defs nearest_multiple_def bounded_def)
  have c: "spec_command CFG 980 = 980" "spec_command CFG 810 = 810"
    "spec_command CFG 2400 = 2400"
    by (simp_all add: spec_command_def CFG_def nearest_multiple_def bounded_def)
  have k: "ecoPrefix CFG @ ''set'' = ''ecoflow/set''" "minDeltaW CFG = 20" "setThrottleSec CFG = 5"
    by (simp_all add: CFG_def)
  have d: "\<bar>js_sub 980 (efChargeW ?a)\<bar> = 20" "\<bar>js_sub 980 (efChargeW ?b)\<bar> = 5"
    "\<bar>js_sub 810 (efChargeW ?c)\<bar> = 410" "\<bar>js_sub 2400 (efChargeW ?d)\<bar> = 2000"
    by (simp_all add: S0_def js_defs)
  have ts: "lastSetTS ?a = 0" "lastSetTS ?b = 0" "lastSetTS ?c = 0" "lastSetTS ?d = 0"
    by (simp_all add: S0_def)
  from doOptimize_spec [OF on(1), of CFG 100]
  have 1: "doOptimize CFG 100 ?a
     = (S0\<lparr>on := True, maxP10s := 1260, efChargeW := 980, lastSetTS := 100\<rparr>,
        [MqttPublish ''ecoflow/set'' 980])"
    unfolding ta c k d(1) ts by simp
  from doOptimize_spec [OF on(2), of CFG 100]
  have 2: "doOptimize CFG 100 ?b = (?b, [])"
    unfolding tb c k d(2) ts by simp
  from doOptimize_spec [OF on(3), of CFG 100]
  have 3: "doOptimize CFG 100 ?c
     = (S0\<lparr>on := True, currentLimitA := 41 / 10, efAcOutW := 8, efChargeW := 810,
           lastSetTS := 100\<rparr>,
        [MqttPublish ''ecoflow/set'' 810])"
    unfolding tc c k d(3) ts by simp
  from doOptimize_spec [OF on(4), of CFG 100]
  have 4: "doOptimize CFG 100 ?d
     = (S0\<lparr>on := True, currentLimitA := 16, efChargeW := 2400, lastSetTS := 100\<rparr>,
        [MqttPublish ''ecoflow/set'' 2400])"
    unfolding td c k d(4) ts by simp
  from on(1) la oa ta 1 tb 2 lc oc tc 3 ld td 4 show ?thesis by simp
qed

subsection \<open>Reading values of the host\<close>

lemma case_num:
  "(case a of Some (JNum x) \<Rightarrow> f x | _ \<Rightarrow> g) = (case num_of a of Some x \<Rightarrow> f x | None \<Rightarrow> g)"
proof (cases a)
  case None
  then show ?thesis by (simp add: num_of_def)
next
  case (Some v)
  then show ?thesis by (cases v) (simp_all add: num_of_def)
qed

lemma case_bool:
  "(case a of Some (JBool b) \<Rightarrow> f b | _ \<Rightarrow> g) = (case bool_of a of Some b \<Rightarrow> f b | None \<Rightarrow> g)"
proof (cases a)
  case None
  then show ?thesis by (simp add: bool_of_def)
next
  case (Some v)
  then show ?thesis by (cases v) (simp_all add: bool_of_def)
qed

subsection \<open>What each handler does\<close>

lemma scan_window_eq:
  "scan_window c ms maxp kept =
     (foldl max maxp (map power_w (filter (\<lambda>m. ts m > c) ms)),
      kept @ filter (\<lambda>m. ts m > c) ms)"
  by (induction ms arbitrary: maxp kept) (auto simp: max_def)

lemma updateMaxP10s_eq:
  "updateMaxP10s cfg t s =
     s\<lparr>measurements := filter (\<lambda>m. ts m > t - windowSec cfg) (measurements s),
       maxP10s := foldl max 0 (map power_w
                    (filter (\<lambda>m. ts m > t - windowSec cfg) (measurements s)))\<rparr>"
  by (simp add: updateMaxP10s_def scan_window_eq Let_def)

lemma shellyEvent_rejected:
  assumes "accepted_info ev = None"
  shows "shellyEvent cfg ev t s = (s, [])"
proof (cases "truthy ev")
  case False
  then show ?thesis by (simp add: shellyEvent_def)
next
  case True
  show ?thesis
  proof (cases "get_prop ev ''info''")
    case None
    with True show ?thesis by (simp add: shellyEvent_def)
  next
    case (Some info)
    with True assms
    have "\<not> truthy info \<or> get_prop info ''component'' \<noteq> Some (JStr ''switch:0'')"
      by (simp add: accepted_info_def split: if_splits)
    with True Some show ?thesis unfolding shellyEvent_def by simp
  qed
qed

lemma shellyEvent_accepted:
  assumes "accepted_info ev = Some info"
  shows "shellyEvent cfg ev t s =
     (if event_kind info = JStr ''toggle''
        then (handleToggle info (s\<lparr>lastShellyEvtTS := t\<rparr>), [])
      else if event_kind info = JStr ''power_measurement''
              \<or> event_kind info = JStr ''power_update''
        then (handlePower cfg info t (s\<lparr>lastShellyEvtTS := t\<rparr>), [])
      else if event_kind info = JStr ''overcurrent''
        then (handleOvercurrent t (s\<lparr>lastShellyEvtTS := t\<rparr>), [])
      else if event_kind info = JStr ''overcurrent_clear''
        then (handleOvercurrentClear (s\<lparr>lastShellyEvtTS := t\<rparr>), [])
      else if event_kind info = JStr ''config_changed''
        then (s\<lparr>lastShellyEvtTS := t\<rparr>, pollCurrentLimit)
      else (s\<lparr>lastShellyEvtTS := t\<rparr>, []))"
proof -
  from assms have a: "truthy ev" "get_prop ev ''info'' = Some info" "truthy info"
    "get_prop info ''component'' = Some (JStr ''switch:0'')"
    by (simp_all add: accepted_info_def split: if_splits option.splits)
  show ?thesis
    unfolding shellyEvent_def event_kind_def Let_def
    by (simp only: a simp_thms if_True if_False option.case)
qed

lemma handleToggle_eq:
  "handleToggle info s =
     (case bool_of (get_prop info ''state'') of
        None \<Rightarrow> s
      | Some b \<Rightarrow> if b then s\<lparr>on := True\<rparr> else clearWindow (s\<lparr>on := False\<rparr>))"
  unfolding handleToggle_def case_bool Let_def
  by (cases "bool_of (get_prop info ''state'')") auto

lemma handlePower_eq:
  "handlePower cfg info t s =
     (if on s
      then (case num_of (get_prop info ''apower'') of
              None \<Rightarrow> s | Some p \<Rightarrow> trackPower cfg p t s)
      else s)"
  unfolding handlePower_def case_num by simp

lemma pollStatusOnceDone_eq:
  "pollStatusOnceDone r e s =
     (if e then s
      else s\<lparr>voltageV := (case num_of (map_of r ''voltage'') of None \<Rightarrow> voltageV s | Some v \<Rightarrow> v),
             on := (case bool_of (map_of r ''output'') of None \<Rightarrow> on s | Some b \<Rightarrow> b)\<rparr>)"
  unfolding pollStatusOnceDone_def case_num case_bool Let_def
  by (cases "num_of (map_of r ''voltage'')"; cases "bool_of (map_of r ''output'')") simp_all

lemma pollCurrentLimitDone_eq:
  "pollCurrentLimitDone r e s =
     (if e then s
      else s\<lparr>currentLimitA :=
               (case num_of (map_of r ''current_limit'') of
                  None \<Rightarrow> currentLimitA s | Some x \<Rightarrow> x)\<rparr>)"
  unfolding pollCurrentLimitDone_def case_num
  by (cases "num_of (map_of r ''current_limit'')") simp_all

lemma quotaMessage_eq:
  "quotaMessage parsed t s =
     (case parsed of
        None \<Rightarrow> s\<lparr>lastQuotaTS := t\<rparr>
      | Some data \<Rightarrow>
          if data = JNull then s\<lparr>lastQuotaTS := t\<rparr>
          else s\<lparr>lastQuotaTS := t,
                 efAcOutW :=
                   (case num_of (get_prop (param_map data) ''powGetAcHvOut'') of
                      Some x \<Rightarrow> max 0 \<bar>x\<bar>
                    | None \<Rightarrow>
                       (case num_of (get_prop (param_map data) ''powOutSumW'') of
                          Some y \<Rightarrow> max 0 y
                        | None \<Rightarrow> efAcOutW s)),
                 efStandbyW :=
                   (case num_of (get_prop (param_map data) ''outputPower'') of
                      Some z \<Rightarrow> max 20 z
                    | None \<Rightarrow> efStandbyW s)\<rparr>)"
proof (cases parsed)
  case None
  then show ?thesis by (simp add: quotaMessage_def)
next
  case (Some data)
  show ?thesis
  proof (cases "data = JNull")
    case True
    with Some show ?thesis by (simp add: quotaMessage_def)
  next
    case False
    have "quotaMessage parsed t s =
      (let s1 = s\<lparr>lastQuotaTS := t\<rparr>; p = param_map data;
           s2 = (case num_of (get_prop p ''powGetAcHvOut'') of
                   Some x \<Rightarrow> s1\<lparr>efAcOutW := max 0 \<bar>x\<bar>\<rparr>
                 | None \<Rightarrow> (case num_of (get_prop p ''powOutSumW'') of
                              Some y \<Rightarrow> s1\<lparr>efAcOutW := max 0 y\<rparr>
                            | None \<Rightarrow> s1))
       in (case num_of (get_prop p ''outputPower'') of
             Some z \<Rightarrow> s2\<lparr>efStandbyW := max 20 z\<rparr>
           | None \<Rightarrow> s2))"
      unfolding quotaMessage_def param_map_def Let_def case_num
      using Some False by simp
    also have "\<dots> = s\<lparr>lastQuotaTS := t,
                 efAcOutW :=
                   (case num_of (get_prop (param_map data) ''powGetAcHvOut'') of
                      Some x \<Rightarrow> max 0 \<bar>x\<bar>
                    | None \<Rightarrow>
                       (case num_of (get_prop (param_map data) ''powOutSumW'') of
                          Some y \<Rightarrow> max 0 y
                        | None \<Rightarrow> efAcOutW s)),
                 efStandbyW :=
                   (case num_of (get_prop (param_map data) ''outputPower'') of
                      Some z \<Rightarrow> max 20 z
                    | None \<Rightarrow> efStandbyW s)\<rparr>"
      by (cases "num_of (get_prop (param_map data) ''powGetAcHvOut'')";
          cases "num_of (get_prop (param_map data) ''powOutSumW'')";
          cases "num_of (get_prop (param_map data) ''outputPower'')") (simp_all add: Let_def)
    finally show ?thesis using Some False by simp
  qed
qed

subsection \<open>The overcurrent latch\<close>

lemma oc_updateMaxP10s [simp]: "oc (updateMaxP10s cfg t s) = oc s"
  by (simp add: updateMaxP10s_eq)

lemma oc_trackPower [simp]: "oc (trackPower cfg p t s) = oc s"
  by (simp add: trackPower_def)

lemma oc_clearWindow [simp]: "oc (clearWindow s) = oc s"
  by (simp add: clearWindow_def)

lemma oc_setEF [simp]: "oc (fst (snd (setEF cfg w t s))) = oc s"
  by (simp add: setEF_def Let_def)

lemma oc_doOptimize [simp]: "oc (fst (doOptimize cfg t s)) = oc s"
  by (simp add: doOptimize_def Let_def setEF_def split: prod.splits)

lemma oc_tryRestore [simp]: "oc (fst (tryRestore cfg t s)) = oc s"
  by (simp add: tryRestore_def Let_def setEF_def split: prod.splits)

lemma oc_watchdogs [simp]: "oc (fst (watchdogs cfg h s)) = oc s"
  by (simp add: watchdogs_def Let_def registerShellyHandler_def registerMqttHandlers_def
      split: prod.splits)

lemma oc_tick [simp]: "oc (fst (tick cfg h s)) = oc s"
proof -
  obtain s2 o2 where w: "watchdogs cfg h s = (s2, o2)"
    by (cases "watchdogs cfg h s")
  then have "oc s2 = oc s"
    using oc_watchdogs [of cfg h s] by simp
  moreover obtain s4 o4
    where r: "tryRestore cfg (now h) (updateMaxP10s cfg (now h) s2) = (s4, o4)"
    by (cases "tryRestore cfg (now h) (updateMaxP10s cfg (now h) s2)")
  then have "oc s4 = oc s2"
    using oc_tryRestore [of cfg "now h" "updateMaxP10s cfg (now h) s2"] by simp
  moreover obtain s5 o5
    where d: "doOptimize cfg (now h) (updateMaxP10s cfg (now h) s2) = (s5, o5)"
    by (cases "doOptimize cfg (now h) (updateMaxP10s cfg (now h) s2)")
  then have "oc s5 = oc s2"
    using oc_doOptimize [of cfg "now h" "updateMaxP10s cfg (now h) s2"] by simp
  ultimately show ?thesis
    by (simp add: tick_def Let_def w r d)
qed

lemma oc_init [simp]: "oc (fst (init cfg h ht s)) = oc s"
  by (simp add: init_def Let_def registerShellyHandler_def registerMqttHandlers_def
      split: prod.splits)

lemma oc_quotaMessage [simp]: "oc (quotaMessage parsed t s) = oc s"
  by (simp add: quotaMessage_eq split: option.splits)

lemma oc_switchSetDone [simp]: "oc (switchSetDone e t s) = oc s"
  by (simp add: switchSetDone_def)

lemma oc_pollStatusOnceDone [simp]: "oc (pollStatusOnceDone r e s) = oc s"
  by (simp add: pollStatusOnceDone_eq)

lemma oc_pollCurrentLimitDone [simp]: "oc (pollCurrentLimitDone r e s) = oc s"
  by (simp add: pollCurrentLimitDone_eq)

lemma oc_handleToggle [simp]: "oc (handleToggle info s) = oc s"
  by (simp add: handleToggle_eq split: option.splits)

lemma oc_handlePower [simp]: "oc (handlePower cfg info t s) = oc s"
  by (simp add: handlePower_eq split: option.splits)

lemma oc_shellyEvent:
  "oc (fst (shellyEvent cfg ev t s)) =
     (if notification ''overcurrent'' ev then True
      else if notification ''overcurrent_clear'' ev then False else oc s)"
proof (cases "accepted_info ev")
  case None
  then show ?thesis by (simp add: shellyEvent_rejected notification_def)
next
  case (Some info)
  then show ?thesis
    by (simp add: shellyEvent_accepted notification_def handleOvercurrent_def
        handleOvercurrentClear_def)
qed

lemma oc_step:
  "oc (fst (step cfg e s)) = (if is_trip e then True else if is_clear e then False else oc s)"
  by (cases e) (simp_all add: oc_shellyEvent replyMessage_def)

lemma oc_run_stays_set:
  "oc s \<Longrightarrow> \<forall>e \<in> set es. \<not> is_clear e \<Longrightarrow> oc (run cfg es s)"
  by (induction es arbitrary: s) (simp_all add: oc_step)

lemma oc_run_stays_clear:
  "\<not> oc s \<Longrightarrow> \<forall>e \<in> set es. \<not> is_trip e \<Longrightarrow> \<not> oc (run cfg es s)"
  by (induction es arbitrary: s) (simp_all add: oc_step)

text \<open>
  C1. One handler run sets the latch exactly when it handles an overcurrent
  notification, clears it exactly when it handles an overcurrent_clear notification,
  and leaves it as it is in every other case: the start, ticks (with their restore
  attempts and optimizer runs), power and toggle events, telemetry, replies. So through any
  sequence of events without a clear notification a set latch stays set, whatever
  the headroom, and through any sequence without a trip notification a clear latch
  stays clear.
\<close>

theorem oc_latch:
  "oc (fst (step cfg e s)) = (if is_trip e then True else if is_clear e then False else oc s)
 \<and> (oc s \<and> (\<forall>e \<in> set es. \<not> is_clear e) \<longrightarrow> oc (run cfg es s))
 \<and> (\<not> oc s \<and> (\<forall>e \<in> set es. \<not> is_trip e) \<longrightarrow> \<not> oc (run cfg es s))"
  using oc_step oc_run_stays_set oc_run_stays_clear by blast

lemmas ev_defs = notification_def accepted_info_def event_kind_def or_else_def

theorem oc_latch_witness:
  "is_trip (Shelly (JObj [(''info'', JObj [(''component'', JStr ''switch:0''),
                                            (''event'', JStr ''overcurrent'')])]) 50)
 \<and> oc (fst (step CFG (Shelly (JObj [(''info'', JObj [(''component'', JStr ''switch:0''),
                                            (''event'', JStr ''overcurrent'')])]) 50) S0))
 \<and> is_clear (Shelly (JObj [(''info'', JObj [(''component'', JStr ''switch:0''),
                                             (''event'', JStr ''overcurrent_clear'')])]) 60)
 \<and> \<not> oc (fst (step CFG (Shelly (JObj [(''info'', JObj [(''component'', JStr ''switch:0''),
                                             (''event'', JStr ''overcurrent_clear'')])]) 60)
              (S0\<lparr>oc := True\<rparr>)))
 \<and> oc (S0\<lparr>oc := True, lastQuotaTS := 95\<rparr>)
 \<and> snd (step CFG (Tick \<lparr>now = 100, newShellyH = 1, newQuotaH = 2, newReplyH = 3\<rparr>)
          (S0\<lparr>oc := True, lastQuotaTS := 95\<rparr>))
     = [AddEventHandler, SwitchGetStatus, MqttPublish ''ecoflow/set'' 400, SwitchSet True]
 \<and> oc (run CFG
      [Tick \<lparr>now = 100, newShellyH = 1, newQuotaH = 2, newReplyH = 3\<rparr>,
       SwitchSetReply False 100,
       Shelly (JObj [(''info'', JObj [(''component'', JStr ''switch:0''),
                                      (''event'', JStr ''toggle''), (''state'', JBool True)])]) 101,
       Shelly (JObj [(''info'', JObj [(''component'', JStr ''switch:0''),
                                      (''event'', JStr ''power_update''), (''apower'', JNum 420)])]) 102,
       Quota (Some (JObj [(''params'', JObj [(''powGetAcHvOut'', JNum 0)])])) 103,
       Tick \<lparr>now = 104, newShellyH = 4, newQuotaH = 5, newReplyH = 6\<rparr>]
      (S0\<lparr>oc := True, lastQuotaTS := 95\<rparr>))"
proof -
  let ?trip = "Shelly (JObj [(''info'', JObj [(''component'', JStr ''switch:0''),
                                            (''event'', JStr ''overcurrent'')])]) 50"
  let ?clear = "Shelly (JObj [(''info'', JObj [(''component'', JStr ''switch:0''),
                                             (''event'', JStr ''overcurrent_clear'')])]) 60"
  let ?es = "[Tick \<lparr>now = 100, newShellyH = 1, newQuotaH = 2, newReplyH = 3\<rparr>,
       SwitchSetReply False 100,
       Shelly (JObj [(''info'', JObj [(''component'', JStr ''switch:0''),
                                      (''event'', JStr ''toggle''), (''state'', JBool True)])]) 101,
       Shelly (JObj [(''info'', JObj [(''component'', JStr ''switch:0''),
                                      (''event'', JStr ''power_update''), (''apower'', JNum 420)])]) 102,
       Quota (Some (JObj [(''params'', JObj [(''powGetAcHvOut'', JNum 0)])])) 103,
       Tick \<lparr>now = 104, newShellyH = 4, newQuotaH = 5, newReplyH = 6\<rparr>]"
  let ?s = "S0\<lparr>oc := True, lastQuotaTS := 95\<rparr>"
  have t: "is_trip ?trip" by (simp add: ev_defs)
  have c: "is_clear ?clear" "\<not> is_trip ?clear" by (simp_all add: ev_defs)
  have n: "\<forall>e \<in> set ?es. \<not> is_clear e" by (simp add: ev_defs)
  have s: "oc ?s" by simp
  have out: "snd (step CFG (Tick \<lparr>now = 100, newShellyH = 1, newQuotaH = 2, newReplyH = 3\<rparr>) ?s)
     = [AddEventHandler, SwitchGetStatus, MqttPublish ''ecoflow/set'' 400, SwitchSet True]"
    by (simp add: tick_def watchdogs_def registerShellyHandler_def registerMqttHandlers_def
        pollStatusOnce_def updateMaxP10s_def tryRestore_def setEF_def maxGridW_def
        math_floor_def roundQ_def math_round_def clamp_def S0_def CFG_def Let_def
        js_add_def js_mul_6_230)
  from oc_latch [of CFG ?trip S0] t
  have 1: "oc (fst (step CFG ?trip S0))" by simp
  from oc_latch [of CFG ?clear "S0\<lparr>oc := True\<rparr>"] c
  have 2: "\<not> oc (fst (step CFG ?clear (S0\<lparr>oc := True\<rparr>)))" by simp
  from oc_latch [of CFG ?trip ?s ?es] s n
  have 3: "oc (run CFG ?es ?s)" by blast
  from t c(1) 1 2 3 s out show ?thesis by blast
qed

subsection \<open>Clearing the rolling window\<close>

lemma we_clearWindow [simp]: "window_empty (clearWindow s)"
  by (simp add: window_empty_def clearWindow_def)

lemma we_updateMaxP10s [simp]: "window_empty s \<Longrightarrow> window_empty (updateMaxP10s cfg t s)"
  by (simp add: window_empty_def updateMaxP10s_eq)

lemma we_setEF [simp]: "window_empty (fst (snd (setEF cfg w t s))) = window_empty s"
  by (simp add: setEF_def Let_def window_empty_def)

lemma we_doOptimize [simp]: "window_empty (fst (doOptimize cfg t s)) = window_empty s"
  by (simp add: doOptimize_def Let_def setEF_def window_empty_def split: prod.splits)

lemma we_tryRestore [simp]: "window_empty (fst (tryRestore cfg t s)) = window_empty s"
  by (simp add: tryRestore_def Let_def setEF_def window_empty_def split: prod.splits)

lemma we_watchdogs [simp]: "window_empty (fst (watchdogs cfg h s)) = window_empty s"
  by (simp add: watchdogs_def Let_def registerShellyHandler_def registerMqttHandlers_def
      window_empty_def split: prod.splits)

lemma we_lastOptTS [simp]: "window_empty (s\<lparr>lastOptTS := t\<rparr>) = window_empty s"
  by (simp add: window_empty_def)

lemma we_lastShellyEvtTS [simp]: "window_empty (s\<lparr>lastShellyEvtTS := t\<rparr>) = window_empty s"
  by (simp add: window_empty_def)

lemma we_tick: "window_empty s \<Longrightarrow> window_empty (fst (tick cfg h s))"
proof -
  assume a: "window_empty s"
  obtain s2 o2 where w: "watchdogs cfg h s = (s2, o2)"
    by (cases "watchdogs cfg h s")
  then have "window_empty s2"
    using we_watchdogs [of cfg h s] a by simp
  then have u: "window_empty (updateMaxP10s cfg (now h) s2)" by simp
  obtain s4 o4
    where r: "tryRestore cfg (now h) (updateMaxP10s cfg (now h) s2) = (s4, o4)"
    by (cases "tryRestore cfg (now h) (updateMaxP10s cfg (now h) s2)")
  then have 4: "window_empty s4"
    using we_tryRestore [of cfg "now h" "updateMaxP10s cfg (now h) s2"] u by simp
  obtain s5 o5
    where d: "doOptimize cfg (now h) (updateMaxP10s cfg (now h) s2) = (s5, o5)"
    by (cases "doOptimize cfg (now h) (updateMaxP10s cfg (now h) s2)")
  then have 5: "window_empty s5"
    using we_doOptimize [of cfg "now h" "updateMaxP10s cfg (now h) s2"] u by simp
  from u 4 5 show ?thesis
    by (simp add: tick_def Let_def w r d)
qed

lemma we_init [simp]: "window_empty (fst (init cfg h ht s)) = window_empty s"
  by (simp add: init_def Let_def registerShellyHandler_def registerMqttHandlers_def
      window_empty_def split: prod.splits)

lemma we_quotaMessage [simp]: "window_empty (quotaMessage parsed t s) = window_empty s"
  by (simp add: quotaMessage_eq window_empty_def split: option.splits)

lemma we_switchSetDone [simp]: "window_empty (switchSetDone e t s) = window_empty s"
  by (simp add: switchSetDone_def window_empty_def)

lemma we_pollStatusOnceDone [simp]: "window_empty (pollStatusOnceDone r e s) = window_empty s"
  by (simp add: pollStatusOnceDone_eq window_empty_def)

lemma we_pollCurrentLimitDone [simp]:
  "window_empty (pollCurrentLimitDone r e s) = window_empty s"
  by (simp add: pollCurrentLimitDone_eq window_empty_def)

lemma we_handleToggle: "window_empty s \<Longrightarrow> window_empty (handleToggle info s)"
  by (simp add: handleToggle_eq split: option.splits) (simp add: window_empty_def)

lemma we_handleOvercurrent [simp]: "window_empty (handleOvercurrent t s)"
  by (simp add: handleOvercurrent_def)

lemma we_handleOvercurrentClear [simp]:
  "window_empty (handleOvercurrentClear s) = window_empty s"
  by (simp add: handleOvercurrentClear_def window_empty_def)

lemma we_shellyEvent:
  assumes "window_empty s"
    and "\<not> notification ''power_measurement'' ev" and "\<not> notification ''power_update'' ev"
  shows "window_empty (fst (shellyEvent cfg ev t s))"
proof (cases "accepted_info ev")
  case None
  with assms show ?thesis by (simp add: shellyEvent_rejected)
next
  case (Some info)
  with assms show ?thesis
    by (simp add: shellyEvent_accepted notification_def we_handleToggle)
qed

lemma we_step: "window_empty s \<Longrightarrow> \<not> is_power e \<Longrightarrow> window_empty (fst (step cfg e s))"
  by (cases e) (simp_all add: we_shellyEvent we_tick replyMessage_def)

lemma we_run:
  "window_empty s \<Longrightarrow> \<forall>e \<in> set es. \<not> is_power e \<Longrightarrow> window_empty (run cfg es s)"
  by (induction es arbitrary: s) (simp_all add: we_step)

lemma shellyEvent_toggle_off:
  assumes "accepted_info ev = Some info" and "event_kind info = JStr ''toggle''"
    and "get_prop info ''state'' = Some (JBool False)"
  shows "fst (shellyEvent cfg ev t s) = clearWindow (s\<lparr>lastShellyEvtTS := t, on := False\<rparr>)"
  using assms by (simp add: shellyEvent_accepted handleToggle_eq bool_of_def)

lemma shellyEvent_trip:
  assumes "notification ''overcurrent'' ev"
  shows "fst (shellyEvent cfg ev t s)
       = clearWindow (s\<lparr>lastShellyEvtTS := t, oc := True, ocSinceTS := t, on := False\<rparr>)"
  using assms
  by (auto simp: notification_def shellyEvent_accepted handleOvercurrent_def
      split: option.splits)

text \<open>
  C7. A toggle notification whose state is false, and an overcurrent notification,
  leave the window empty, the peak 0 and the switch state off. From then on
  \<^verbatim>\<open>updateMaxP10s\<close> gives the peak 0 at any time, also after any sequence of
  events that has no power notification in it.
\<close>

theorem window_cleared:
  "(accepted_info ev = Some info \<and> event_kind info = JStr ''toggle''
      \<and> get_prop info ''state'' = Some (JBool False)
    \<or> notification ''overcurrent'' ev)
   \<Longrightarrow> \<forall>e \<in> set es. \<not> is_power e
   \<Longrightarrow> measurements (fst (shellyEvent cfg ev t s)) = []
     \<and> maxP10s (fst (shellyEvent cfg ev t s)) = 0
     \<and> \<not> on (fst (shellyEvent cfg ev t s))
     \<and> maxP10s (updateMaxP10s cfg t' (fst (shellyEvent cfg ev t s))) = 0
     \<and> measurements (run cfg es (fst (shellyEvent cfg ev t s))) = []
     \<and> maxP10s (updateMaxP10s cfg t' (run cfg es (fst (shellyEvent cfg ev t s)))) = 0"
proof -
  assume a: "accepted_info ev = Some info \<and> event_kind info = JStr ''toggle''
      \<and> get_prop info ''state'' = Some (JBool False)
    \<or> notification ''overcurrent'' ev"
  assume b: "\<forall>e \<in> set es. \<not> is_power e"
  let ?s = "fst (shellyEvent cfg ev t s)"
  from a have w: "window_empty ?s \<and> \<not> on ?s"
  proof
    assume "accepted_info ev = Some info \<and> event_kind info = JStr ''toggle''
      \<and> get_prop info ''state'' = Some (JBool False)"
    then show ?thesis by (simp add: shellyEvent_toggle_off) (simp add: clearWindow_def)
  next
    assume "notification ''overcurrent'' ev"
    then show ?thesis by (simp add: shellyEvent_trip) (simp add: clearWindow_def)
  qed
  then have 1: "window_empty (updateMaxP10s cfg t' ?s)" by simp
  from w b have 2: "window_empty (run cfg es ?s)" by (simp add: we_run)
  then have 3: "window_empty (updateMaxP10s cfg t' (run cfg es ?s))" by simp
  from w 1 2 3 show ?thesis by (simp add: window_empty_def)
qed

theorem window_cleared_witness:
  "maxP10s (updateMaxP10s CFG 100
      (S0\<lparr>on := True, measurements := [\<lparr>ts = 95, power_w = 800\<rparr>], maxP10s := 800\<rparr>)) = 800
 \<and> maxP10s (updateMaxP10s CFG 101 (fst (shellyEvent CFG
      (JObj [(''info'', JObj [(''component'', JStr ''switch:0''),
                              (''event'', JStr ''toggle''), (''state'', JBool False)])])
      100 (S0\<lparr>on := True, measurements := [\<lparr>ts = 95, power_w = 800\<rparr>], maxP10s := 800\<rparr>)))) = 0
 \<and> \<not> on (fst (shellyEvent CFG
      (JObj [(''info'', JObj [(''component'', JStr ''switch:0''),
                              (''event'', JStr ''overcurrent'')])])
      100 (S0\<lparr>on := True, measurements := [\<lparr>ts = 95, power_w = 800\<rparr>], maxP10s := 800\<rparr>)))
 \<and> maxP10s (updateMaxP10s CFG 102 (run CFG
      [Tick \<lparr>now = 101, newShellyH = 1, newQuotaH = 2, newReplyH = 3\<rparr>]
      (fst (shellyEvent CFG
        (JObj [(''info'', JObj [(''component'', JStr ''switch:0''),
                                (''event'', JStr ''overcurrent'')])])
        100 (S0\<lparr>on := True, measurements := [\<lparr>ts = 95, power_w = 800\<rparr>], maxP10s := 800\<rparr>))))) = 0"
proof -
  let ?s = "S0\<lparr>on := True, measurements := [\<lparr>ts = 95, power_w = 800\<rparr>], maxP10s := 800\<rparr>"
  let ?i = "JObj [(''component'', JStr ''switch:0''),
                  (''event'', JStr ''toggle''), (''state'', JBool False)]"
  let ?off = "JObj [(''info'', ?i)]"
  let ?trip = "JObj [(''info'', JObj [(''component'', JStr ''switch:0''),
                                      (''event'', JStr ''overcurrent'')])]"
  let ?es = "[Tick \<lparr>now = 101, newShellyH = 1, newQuotaH = 2, newReplyH = 3\<rparr>]"
  have p: "maxP10s (updateMaxP10s CFG 100 ?s) = 800"
    by (simp add: updateMaxP10s_def CFG_def)
  have a: "accepted_info ?off = Some ?i \<and> event_kind ?i = JStr ''toggle''
      \<and> get_prop ?i ''state'' = Some (JBool False)
    \<or> notification ''overcurrent'' ?off"
    by (simp add: ev_defs)
  have b: "accepted_info ?trip = Some ?i \<and> event_kind ?i = JStr ''toggle''
      \<and> get_prop ?i ''state'' = Some (JBool False)
    \<or> notification ''overcurrent'' ?trip"
    by (simp add: ev_defs)
  have n: "\<forall>e \<in> set []. \<not> is_power e" "\<forall>e \<in> set ?es. \<not> is_power e"
    by simp_all
  from window_cleared [OF a n(1), of CFG 100 ?s 101]
  have 1: "maxP10s (updateMaxP10s CFG 101 (fst (shellyEvent CFG ?off 100 ?s))) = 0"
    by blast
  from window_cleared [OF b n(2), of CFG 100 ?s 102]
  have 2: "\<not> on (fst (shellyEvent CFG ?trip 100 ?s))"
    "maxP10s (updateMaxP10s CFG 102 (run CFG ?es (fst (shellyEvent CFG ?trip 100 ?s)))) = 0"
    by blast+
  from p 1 2 show ?thesis by blast
qed

subsection \<open>Power notifications while the switch is off\<close>

text \<open>
  C10 as the script has it. While \<^verbatim>\<open>S.on\<close> is false, \<^verbatim>\<open>handlePower\<close> changes
  nothing, and the run of the event handler on a power notification changes one
  field: it stamps \<^verbatim>\<open>lastShellyEvtTS\<close>, as it does for every accepted event. No
  sample is recorded, the peak is not recomputed and nothing is sent.
\<close>

theorem power_while_off:
  "\<not> on s \<Longrightarrow> accepted_info ev = Some info
   \<Longrightarrow> event_kind info = JStr ''power_measurement'' \<or> event_kind info = JStr ''power_update''
   \<Longrightarrow> handlePower cfg info t s = s
     \<and> shellyEvent cfg ev t s = (s\<lparr>lastShellyEvtTS := t\<rparr>, [])"
  by (auto simp: shellyEvent_accepted handlePower_eq)

theorem power_while_off_witness:
  "\<not> on S0
 \<and> shellyEvent CFG
      (JObj [(''info'', JObj [(''component'', JStr ''switch:0''),
                              (''event'', JStr ''power_update''), (''apower'', JNum 420)])])
      100 S0 = (S0\<lparr>lastShellyEvtTS := 100\<rparr>, [])"
proof -
  let ?i = "JObj [(''component'', JStr ''switch:0''),
                  (''event'', JStr ''power_update''), (''apower'', JNum 420)]"
  have 1: "\<not> on S0" by (simp add: S0_def)
  have 2: "accepted_info (JObj [(''info'', ?i)]) = Some ?i" by (simp add: ev_defs)
  have 3: "event_kind ?i = JStr ''power_measurement'' \<or> event_kind ?i = JStr ''power_update''"
    by (simp add: ev_defs)
  from power_while_off [OF 1 2 3, of CFG 100] 1 show ?thesis by blast
qed

text \<open>
  The claim as it is written fails: the state after a power notification received
  while the switch is off differs from the state before.
\<close>

theorem power_while_off_counterexample:
  "\<not> on S0
 \<and> notification ''power_update''
      (JObj [(''info'', JObj [(''component'', JStr ''switch:0''),
                              (''event'', JStr ''power_update''), (''apower'', JNum 420)])])
 \<and> lastShellyEvtTS S0 = 0
 \<and> lastShellyEvtTS (fst (shellyEvent CFG
      (JObj [(''info'', JObj [(''component'', JStr ''switch:0''),
                              (''event'', JStr ''power_update''), (''apower'', JNum 420)])])
      100 S0)) = 100
 \<and> fst (shellyEvent CFG
      (JObj [(''info'', JObj [(''component'', JStr ''switch:0''),
                              (''event'', JStr ''power_update''), (''apower'', JNum 420)])])
      100 S0) \<noteq> S0"
proof -
  let ?ev = "JObj [(''info'', JObj [(''component'', JStr ''switch:0''),
                              (''event'', JStr ''power_update''), (''apower'', JNum 420)])]"
  have 1: "\<not> on S0" "lastShellyEvtTS S0 = 0" by (simp_all add: S0_def)
  have 2: "notification ''power_update'' ?ev" by (simp add: ev_defs)
  have 3: "lastShellyEvtTS (fst (shellyEvent CFG ?ev 100 S0)) = 100"
    by (simp add: shellyEvent_def or_else_def handlePower_def S0_def)
  from 3 1 have 4: "fst (shellyEvent CFG ?ev 100 S0) \<noteq> S0" by auto
  from 1 2 3 4 show ?thesis by blast
qed

subsection \<open>The watchdogs\<close>

text \<open>
  C8 as the script has it. When no switch event has arrived for more than
  \<^verbatim>\<open>eventTimeoutSec\<close>, the watchdog part of \<^verbatim>\<open>tick\<close> replaces the event handler,
  sends the status request and stamps \<^verbatim>\<open>lastShellyEvtTS\<close>; when no telemetry has
  arrived for more than \<^verbatim>\<open>mqttTimeoutSec\<close>, it replaces the two subscriptions. It
  changes no other field: not the latch, \<^verbatim>\<open>S.on\<close>, \<^verbatim>\<open>efChargeW\<close> or \<^verbatim>\<open>lastSetTS\<close>. The
  reply to the status request, unless it reports an error, overwrites
  \<^verbatim>\<open>S.voltageV\<close> with the reported voltage when that is a number and \<^verbatim>\<open>S.on\<close> with
  the reported output when that is a boolean, and changes nothing else; a reply
  that reports an error changes nothing.
\<close>

theorem watchdogs_frame:
  "watchdogs cfg h s =
     (s\<lparr>lastShellyEvtTS :=
          (if now h - lastShellyEvtTS s > eventTimeoutSec cfg then now h
           else lastShellyEvtTS s),
        shellyH :=
          (if now h - lastShellyEvtTS s > eventTimeoutSec cfg then Some (newShellyH h)
           else shellyH s),
        mqttQuotaH :=
          (if now h - lastQuotaTS s > mqttTimeoutSec cfg then Some (newQuotaH h)
           else mqttQuotaH s),
        mqttReplyH :=
          (if now h - lastQuotaTS s > mqttTimeoutSec cfg then Some (newReplyH h)
           else mqttReplyH s)\<rparr>,
      (if now h - lastShellyEvtTS s > eventTimeoutSec cfg
       then (case shellyH s of Some old \<Rightarrow> [RemoveEventHandler old] | None \<Rightarrow> [])
            @ [AddEventHandler, SwitchGetStatus]
       else [])
      @ (if now h - lastQuotaTS s > mqttTimeoutSec cfg
         then (case mqttQuotaH s of Some old \<Rightarrow> [MqttUnsubscribe old] | None \<Rightarrow> [])
              @ (case mqttReplyH s of Some old \<Rightarrow> [MqttUnsubscribe old] | None \<Rightarrow> [])
              @ [MqttSubscribe (ecoPrefix cfg @ ''quota''),
                 MqttSubscribe (ecoPrefix cfg @ ''set_reply'')]
         else []))
 \<and> oc (fst (watchdogs cfg h s)) = oc s
 \<and> on (fst (watchdogs cfg h s)) = on s
 \<and> efChargeW (fst (watchdogs cfg h s)) = efChargeW s
 \<and> lastSetTS (fst (watchdogs cfg h s)) = lastSetTS s
 \<and> pollStatusOnceDone r e s =
     (if e then s
      else s\<lparr>voltageV :=
               (case num_of (map_of r ''voltage'') of None \<Rightarrow> voltageV s | Some v \<Rightarrow> v),
             on := (case bool_of (map_of r ''output'') of None \<Rightarrow> on s | Some b \<Rightarrow> b)\<rparr>)
 \<and> oc (pollStatusOnceDone r e s) = oc s
 \<and> efChargeW (pollStatusOnceDone r e s) = efChargeW s
 \<and> lastSetTS (pollStatusOnceDone r e s) = lastSetTS s"
proof -
  have w: "watchdogs cfg h s =
     (s\<lparr>lastShellyEvtTS :=
          (if now h - lastShellyEvtTS s > eventTimeoutSec cfg then now h
           else lastShellyEvtTS s),
        shellyH :=
          (if now h - lastShellyEvtTS s > eventTimeoutSec cfg then Some (newShellyH h)
           else shellyH s),
        mqttQuotaH :=
          (if now h - lastQuotaTS s > mqttTimeoutSec cfg then Some (newQuotaH h)
           else mqttQuotaH s),
        mqttReplyH :=
          (if now h - lastQuotaTS s > mqttTimeoutSec cfg then Some (newReplyH h)
           else mqttReplyH s)\<rparr>,
      (if now h - lastShellyEvtTS s > eventTimeoutSec cfg
       then (case shellyH s of Some old \<Rightarrow> [RemoveEventHandler old] | None \<Rightarrow> [])
            @ [AddEventHandler, SwitchGetStatus]
       else [])
      @ (if now h - lastQuotaTS s > mqttTimeoutSec cfg
         then (case mqttQuotaH s of Some old \<Rightarrow> [MqttUnsubscribe old] | None \<Rightarrow> [])
              @ (case mqttReplyH s of Some old \<Rightarrow> [MqttUnsubscribe old] | None \<Rightarrow> [])
              @ [MqttSubscribe (ecoPrefix cfg @ ''quota''),
                 MqttSubscribe (ecoPrefix cfg @ ''set_reply'')]
         else []))"
    by (cases "now h - lastShellyEvtTS s > eventTimeoutSec cfg";
        cases "now h - lastQuotaTS s > mqttTimeoutSec cfg")
       (simp_all add: watchdogs_def Let_def registerShellyHandler_def registerMqttHandlers_def
          pollStatusOnce_def)
  have p: "pollStatusOnceDone r e s =
     (if e then s
      else s\<lparr>voltageV :=
               (case num_of (map_of r ''voltage'') of None \<Rightarrow> voltageV s | Some v \<Rightarrow> v),
             on := (case bool_of (map_of r ''output'') of None \<Rightarrow> on s | Some b \<Rightarrow> b)\<rparr>)"
    unfolding pollStatusOnceDone_def case_num case_bool Let_def
    by (cases "num_of (map_of r ''voltage'')"; cases "bool_of (map_of r ''output'')") simp_all
  show ?thesis
    by (intro conjI) (simp_all only: w p, simp_all)
qed

theorem watchdogs_frame_witness:
  "watchdogs CFG \<lparr>now = 100, newShellyH = 1, newQuotaH = 2, newReplyH = 3\<rparr> S0
     = (S0\<lparr>lastShellyEvtTS := 100, shellyH := Some 1, mqttQuotaH := Some 2,
           mqttReplyH := Some 3\<rparr>,
        [AddEventHandler, SwitchGetStatus,
         MqttSubscribe ''ecoflow/quota'', MqttSubscribe ''ecoflow/set_reply''])
 \<and> watchdogs CFG \<lparr>now = 20, newShellyH = 1, newQuotaH = 2, newReplyH = 3\<rparr> S0 = (S0, [])
 \<and> pollStatusOnceDone [(''voltage'', JNum (463 / 2)), (''output'', JBool True)] False S0
     = S0\<lparr>voltageV := 463 / 2, on := True\<rparr>
 \<and> pollStatusOnceDone [(''voltage'', JStr ''n/a'')] False (S0\<lparr>on := True\<rparr>)
     = S0\<lparr>on := True\<rparr>
 \<and> pollStatusOnceDone [(''voltage'', JNum (463 / 2)), (''output'', JBool True)] True S0 = S0"
proof -
  let ?h = "\<lparr>now = 100, newShellyH = 1, newQuotaH = 2, newReplyH = 3\<rparr>"
  let ?g = "\<lparr>now = 20, newShellyH = 1, newQuotaH = 2, newReplyH = 3\<rparr>"
  let ?r = "[(''voltage'', JNum (463 / 2)), (''output'', JBool True)]"
  from watchdogs_frame [of CFG ?h S0 "[]" True]
  have 1: "watchdogs CFG ?h S0
     = (S0\<lparr>lastShellyEvtTS := 100, shellyH := Some 1, mqttQuotaH := Some 2,
           mqttReplyH := Some 3\<rparr>,
        [AddEventHandler, SwitchGetStatus,
         MqttSubscribe ''ecoflow/quota'', MqttSubscribe ''ecoflow/set_reply''])"
    by (simp add: S0_def CFG_def)
  from watchdogs_frame [of CFG ?g S0 "[]" True]
  have 2: "watchdogs CFG ?g S0 = (S0, [])"
    by (simp add: S0_def CFG_def)
  from watchdogs_frame [of CFG ?h S0 ?r False]
  have 3: "pollStatusOnceDone ?r False S0 = S0\<lparr>voltageV := 463 / 2, on := True\<rparr>"
    by (simp add: num_of_def bool_of_def)
  from watchdogs_frame [of CFG ?h "S0\<lparr>on := True\<rparr>" "[(''voltage'', JStr ''n/a'')]" False]
  have 4: "pollStatusOnceDone [(''voltage'', JStr ''n/a'')] False (S0\<lparr>on := True\<rparr>)
     = S0\<lparr>on := True\<rparr>"
    by (simp add: num_of_def bool_of_def)
  from watchdogs_frame [of CFG ?h S0 ?r True]
  have 5: "pollStatusOnceDone ?r True S0 = S0"
    by simp
  from 1 2 3 4 5 show ?thesis by blast
qed

text \<open>
  The claim as it is written fails: the status request that the switch watchdog
  sends is answered with the relay state, and the reply overwrites \<^verbatim>\<open>S.on\<close>.
\<close>

theorem watchdogs_frame_counterexample:
  "100 - lastShellyEvtTS S0 > eventTimeoutSec CFG
 \<and> SwitchGetStatus \<in> set (snd (watchdogs CFG \<lparr>now = 100, newShellyH = 1, newQuotaH = 2, newReplyH = 3\<rparr> S0))
 \<and> \<not> on (fst (watchdogs CFG \<lparr>now = 100, newShellyH = 1, newQuotaH = 2, newReplyH = 3\<rparr> S0))
 \<and> on (pollStatusOnceDone [(''voltage'', JNum 231), (''output'', JBool True)] False
          (fst (watchdogs CFG \<lparr>now = 100, newShellyH = 1, newQuotaH = 2, newReplyH = 3\<rparr> S0)))"
  by (simp add: watchdogs_def registerShellyHandler_def registerMqttHandlers_def
      pollStatusOnce_def pollStatusOnceDone_def S0_def CFG_def Let_def)

subsection \<open>Telemetry\<close>

text \<open>
  C9 as the script has it. For a message that parses to a value other than
  \<^verbatim>\<open>null\<close>, with \<open>param_map\<close> its parameter map: a numeric \<^verbatim>\<open>powGetAcHvOut\<close> is
  stored in \<^verbatim>\<open>efAcOutW\<close> as its absolute value; failing that, a numeric
  \<^verbatim>\<open>powOutSumW\<close> is stored as it is when it is not negative and as 0 when it is
  negative (no absolute value is taken); either way the stored value is not
  negative. A numeric \<^verbatim>\<open>outputPower\<close> is stored in \<^verbatim>\<open>efStandbyW\<close>, raised to 20 when
  it is below. A field that is absent or not a number leaves its state field as it
  was. A message that does not parse, or parses to \<^verbatim>\<open>null\<close>, changes nothing but
  \<^verbatim>\<open>lastQuotaTS\<close>.
\<close>

theorem quota_ingest:
  "(parsed = Some data \<and> data \<noteq> JNull \<longrightarrow>
       (num_of (get_prop (param_map data) ''powGetAcHvOut'') = Some x
          \<longrightarrow> efAcOutW (quotaMessage parsed t s) = \<bar>x\<bar>)
     \<and> (num_of (get_prop (param_map data) ''powGetAcHvOut'') = None
          \<and> num_of (get_prop (param_map data) ''powOutSumW'') = Some y
          \<longrightarrow> efAcOutW (quotaMessage parsed t s) = max 0 y)
     \<and> (num_of (get_prop (param_map data) ''powGetAcHvOut'') \<noteq> None
          \<or> num_of (get_prop (param_map data) ''powOutSumW'') \<noteq> None
          \<longrightarrow> 0 \<le> efAcOutW (quotaMessage parsed t s))
     \<and> (num_of (get_prop (param_map data) ''powGetAcHvOut'') = None
          \<and> num_of (get_prop (param_map data) ''powOutSumW'') = None
          \<longrightarrow> efAcOutW (quotaMessage parsed t s) = efAcOutW s)
     \<and> (num_of (get_prop (param_map data) ''outputPower'') = Some z
          \<longrightarrow> efStandbyW (quotaMessage parsed t s) = max 20 z)
     \<and> (num_of (get_prop (param_map data) ''outputPower'') = None
          \<longrightarrow> efStandbyW (quotaMessage parsed t s) = efStandbyW s))
 \<and> (parsed = None \<or> parsed = Some JNull \<longrightarrow>
       quotaMessage parsed t s = s\<lparr>lastQuotaTS := t\<rparr>)"
  by (auto simp: quotaMessage_eq split: option.splits)

lemmas quota_defs = param_map_def js_or_def or_else_def num_of_def

theorem quota_ingest_witness:
  "efAcOutW (quotaMessage
      (Some (JObj [(''params'', JObj [(''powGetAcHvOut'', JNum (- 200)),
                                      (''powOutSumW'', JNum 7), (''outputPower'', JNum 12)])]))
      100 S0) = 200
 \<and> efStandbyW (quotaMessage
      (Some (JObj [(''params'', JObj [(''powGetAcHvOut'', JNum (- 200)),
                                      (''powOutSumW'', JNum 7), (''outputPower'', JNum 12)])]))
      100 S0) = 20
 \<and> efAcOutW (quotaMessage
      (Some (JObj [(''param'', JObj [(''powGetAcHvOut'', JStr ''n/a''),
                                     (''powOutSumW'', JNum (- 50))])]))
      100 S0) = 0
 \<and> quotaMessage None 100 S0 = S0\<lparr>lastQuotaTS := 100\<rparr>
 \<and> quotaMessage (Some JNull) 100 S0 = S0\<lparr>lastQuotaTS := 100\<rparr>"
proof -
  let ?d1 = "JObj [(''params'', JObj [(''powGetAcHvOut'', JNum (- 200)),
                                      (''powOutSumW'', JNum 7), (''outputPower'', JNum 12)])]"
  let ?d2 = "JObj [(''param'', JObj [(''powGetAcHvOut'', JStr ''n/a''),
                                     (''powOutSumW'', JNum (- 50))])]"
  have a: "num_of (get_prop (param_map ?d1) ''powGetAcHvOut'') = Some (- 200)"
    "num_of (get_prop (param_map ?d1) ''outputPower'') = Some 12"
    "?d1 \<noteq> JNull"
    by (simp_all add: quota_defs)
  have b: "num_of (get_prop (param_map ?d2) ''powGetAcHvOut'') = None"
    "num_of (get_prop (param_map ?d2) ''powOutSumW'') = Some (- 50)"
    "?d2 \<noteq> JNull"
    by (simp_all add: quota_defs)
  from quota_ingest [of "Some ?d1" ?d1 "- 200" 100 S0 0 12] a
  have 1: "efAcOutW (quotaMessage (Some ?d1) 100 S0) = 200"
    "efStandbyW (quotaMessage (Some ?d1) 100 S0) = 20" by simp_all
  from quota_ingest [of "Some ?d2" ?d2 0 100 S0 "- 50" 0] b
  have 2: "efAcOutW (quotaMessage (Some ?d2) 100 S0) = 0" by simp
  from quota_ingest [of None JNull 0 100 S0 0 0]
  have 3: "quotaMessage None 100 S0 = S0\<lparr>lastQuotaTS := 100\<rparr>" by simp
  from quota_ingest [of "Some JNull" JNull 0 100 S0 0 0]
  have 4: "quotaMessage (Some JNull) 100 S0 = S0\<lparr>lastQuotaTS := 100\<rparr>" by simp
  from 1 2 3 4 show ?thesis by simp
qed

text \<open>
  The claim as it is written fails for the second field name: a negative
  \<^verbatim>\<open>powOutSumW\<close> is stored as 0, not as its absolute value.
\<close>

theorem quota_ingest_counterexample:
  "num_of (get_prop (param_map (JObj [(''params'', JObj [(''powOutSumW'', JNum (- 50))])]))
       ''powGetAcHvOut'') = None
 \<and> num_of (get_prop (param_map (JObj [(''params'', JObj [(''powOutSumW'', JNum (- 50))])]))
       ''powOutSumW'') = Some (- 50)
 \<and> efAcOutW (quotaMessage (Some (JObj [(''params'', JObj [(''powOutSumW'', JNum (- 50))])]))
       100 S0) = 0
 \<and> efAcOutW (quotaMessage (Some (JObj [(''params'', JObj [(''powOutSumW'', JNum (- 50))])]))
       100 S0) \<noteq> \<bar>- 50\<bar>"
  by (simp add: quotaMessage_def quota_defs S0_def)

subsection \<open>Restore after a trip\<close>

text \<open>
  C2 as the script has it. With the latch set, \<^verbatim>\<open>tryRestore\<close> sends nothing unless
  \<open>restore_ok\<close> holds, whose headroom condition is that the expected draw is below
  \<^verbatim>\<open>Math.floor(currentLimitA * voltageV)\<close>, the floor of the product as the machine
  computes it. When it holds, \<^verbatim>\<open>tryRestore\<close> calls \<^verbatim>\<open>setEF\<close> with \<^verbatim>\<open>initChargeW\<close>; if
  that call is throttled nothing is sent, and otherwise the SET command is
  published, carrying \<^verbatim>\<open>initChargeW\<close> quantized and clamped, and the switch is asked
  to turn on. Whenever something is sent, the expected draw is below the product
  itself.
\<close>

theorem tryRestore_spec:
  "oc s \<Longrightarrow>
     (\<not> restore_ok cfg t s \<longrightarrow> snd (tryRestore cfg t s) = [])
   \<and> (restore_ok cfg t s \<and> t - lastSetTS s < setThrottleSec cfg
        \<longrightarrow> snd (tryRestore cfg t s) = [])
   \<and> (restore_ok cfg t s \<and> \<not> t - lastSetTS s < setThrottleSec cfg
        \<longrightarrow> snd (tryRestore cfg t s) =
              [MqttPublish (ecoPrefix cfg @ ''set'') (spec_command cfg (initChargeW cfg)),
               SwitchSet True])
   \<and> (snd (tryRestore cfg t s) \<noteq> []
        \<longrightarrow> js_add (js_add (initChargeW cfg) (efAcOutW s)) (efStandbyW s)
              < js_mul (currentLimitA s) (voltageV s))"
proof -
  assume a: "oc s"
  have cmd: "clamp (roundQ cfg (initChargeW cfg)) (minChargeW cfg) (maxChargeW cfg)
      = spec_command cfg (initChargeW cfg)"
    by (simp add: clamp_def roundQ_def math_round_def spec_command_def nearest_multiple_def
        bounded_def)
  have out: "snd (tryRestore cfg t s) =
     (if restore_ok cfg t s \<and> \<not> t - lastSetTS s < setThrottleSec cfg
      then [MqttPublish (ecoPrefix cfg @ ''set'') (spec_command cfg (initChargeW cfg)),
            SwitchSet True]
      else [])"
    using a
    by (simp add: tryRestore_def restore_ok_def setEF_def maxGridW_def math_floor_def
        cmd Let_def not_less not_le)
  have fl: "of_int \<lfloor>js_mul (currentLimitA s) (voltageV s)\<rfloor>
      \<le> js_mul (currentLimitA s) (voltageV s)"
    by (rule of_int_floor_le)
  have "js_add (js_add (initChargeW cfg) (efAcOutW s)) (efStandbyW s)
      < js_mul (currentLimitA s) (voltageV s)" if "restore_ok cfg t s"
  proof -
    from that
    have "js_add (js_add (initChargeW cfg) (efAcOutW s)) (efStandbyW s)
      < of_int \<lfloor>js_mul (currentLimitA s) (voltageV s)\<rfloor>"
      by (simp add: restore_ok_def)
    then show ?thesis using fl by (rule less_le_trans)
  qed
  then show ?thesis using out by auto
qed

theorem tryRestore_spec_witness:
  "oc (S0\<lparr>oc := True, efAcOutW := 200, lastQuotaTS := 100\<rparr>)
 \<and> restore_ok CFG 100 (S0\<lparr>oc := True, efAcOutW := 200, lastQuotaTS := 100\<rparr>)
 \<and> snd (tryRestore CFG 100 (S0\<lparr>oc := True, efAcOutW := 200, lastQuotaTS := 100\<rparr>))
     = [MqttPublish ''ecoflow/set'' 400, SwitchSet True]
 \<and> \<not> restore_ok CFG 100 (S0\<lparr>oc := True, efAcOutW := 1000, lastQuotaTS := 100\<rparr>)
 \<and> snd (tryRestore CFG 100 (S0\<lparr>oc := True, efAcOutW := 1000, lastQuotaTS := 100\<rparr>)) = []
 \<and> restore_ok CFG 100 (S0\<lparr>oc := True, efAcOutW := 200, lastQuotaTS := 100, lastSetTS := 98\<rparr>)
 \<and> snd (tryRestore CFG 100
          (S0\<lparr>oc := True, efAcOutW := 200, lastQuotaTS := 100, lastSetTS := 98\<rparr>)) = []
 \<and> \<not> restore_ok CFG 105 (S0\<lparr>oc := True, ocSinceTS := 100, efAcOutW := 200, lastQuotaTS := 104\<rparr>)
 \<and> snd (tryRestore CFG 105
          (S0\<lparr>oc := True, ocSinceTS := 100, efAcOutW := 200, lastQuotaTS := 104\<rparr>)) = []
 \<and> \<not> restore_ok CFG 100
        (S0\<lparr>oc := True, currentLimitA := 41 / 10, efAcOutW := 522, lastQuotaTS := 100\<rparr>)
 \<and> snd (tryRestore CFG 100
          (S0\<lparr>oc := True, currentLimitA := 41 / 10, efAcOutW := 522, lastQuotaTS := 100\<rparr>)) = []"
proof -
  let ?a = "S0\<lparr>oc := True, efAcOutW := 200, lastQuotaTS := 100\<rparr>"
  let ?b = "S0\<lparr>oc := True, efAcOutW := 1000, lastQuotaTS := 100\<rparr>"
  let ?c = "S0\<lparr>oc := True, efAcOutW := 200, lastQuotaTS := 100, lastSetTS := 98\<rparr>"
  let ?d = "S0\<lparr>oc := True, ocSinceTS := 100, efAcOutW := 200, lastQuotaTS := 104\<rparr>"
  let ?e = "S0\<lparr>oc := True, currentLimitA := 41 / 10, efAcOutW := 522, lastQuotaTS := 100\<rparr>"
  have oc: "oc ?a" "oc ?b" "oc ?c" "oc ?d" "oc ?e" by simp_all
  have ok: "restore_ok CFG 100 ?a" "\<not> restore_ok CFG 100 ?b" "restore_ok CFG 100 ?c"
    "\<not> restore_ok CFG 105 ?d"
    by (simp_all add: restore_ok_def S0_def CFG_def js_add_def js_mul_6_230)
  have oke: "\<not> restore_ok CFG 100 ?e"
    by (simp add: restore_ok_def S0_def CFG_def js_add_def js_mul_41_230)
  have th: "\<not> 100 - lastSetTS ?a < setThrottleSec CFG" "100 - lastSetTS ?c < setThrottleSec CFG"
    by (simp_all add: S0_def CFG_def)
  have v: "spec_command CFG (initChargeW CFG) = 400"
    "ecoPrefix CFG @ ''set'' = ''ecoflow/set''"
    by (simp_all add: CFG_def spec_command_def nearest_multiple_def bounded_def)
  from tryRestore_spec [OF oc(1), of CFG 100] ok(1) th(1)
  have 1: "snd (tryRestore CFG 100 ?a) = [MqttPublish ''ecoflow/set'' 400, SwitchSet True]"
    unfolding v by blast
  from tryRestore_spec [OF oc(2), of CFG 100] ok(2)
  have 2: "snd (tryRestore CFG 100 ?b) = []" by blast
  from tryRestore_spec [OF oc(3), of CFG 100] ok(3) th(2)
  have 3: "snd (tryRestore CFG 100 ?c) = []" by blast
  from tryRestore_spec [OF oc(4), of CFG 105] ok(4)
  have 4: "snd (tryRestore CFG 105 ?d) = []" by blast
  from tryRestore_spec [OF oc(5), of CFG 100] oke
  have 5: "snd (tryRestore CFG 100 ?e) = []" by blast
  from oc(1) ok oke 1 2 3 4 5 show ?thesis by blast
qed

text \<open>
  The claim as it is written fails: the four conditions it names hold, the
  expected draw 1381 W being below 6 A * 230.25 V = 1381.5 W (sums and product are
  exact here), and \<^verbatim>\<open>setEF\<close> would not be throttled, yet nothing is sent, because
  1381 is not below the floored limit 1381.
\<close>

theorem tryRestore_spec_counterexample:
  "oc (S0\<lparr>oc := True, voltageV := 921 / 4, efAcOutW := 961, lastQuotaTS := 100\<rparr>)
 \<and> 100 - ocSinceTS (S0\<lparr>oc := True, voltageV := 921 / 4, efAcOutW := 961, lastQuotaTS := 100\<rparr>)
      \<ge> restoreDelaySec CFG
 \<and> 100 - lastRestoreTryTS (S0\<lparr>oc := True, voltageV := 921 / 4, efAcOutW := 961, lastQuotaTS := 100\<rparr>)
      \<ge> 3
 \<and> 100 - lastQuotaTS (S0\<lparr>oc := True, voltageV := 921 / 4, efAcOutW := 961, lastQuotaTS := 100\<rparr>)
      \<le> quotaMaxAgeSec CFG
 \<and> initChargeW CFG
      + efAcOutW (S0\<lparr>oc := True, voltageV := 921 / 4, efAcOutW := 961, lastQuotaTS := 100\<rparr>)
      + efStandbyW (S0\<lparr>oc := True, voltageV := 921 / 4, efAcOutW := 961, lastQuotaTS := 100\<rparr>)
    < currentLimitA (S0\<lparr>oc := True, voltageV := 921 / 4, efAcOutW := 961, lastQuotaTS := 100\<rparr>)
      * voltageV (S0\<lparr>oc := True, voltageV := 921 / 4, efAcOutW := 961, lastQuotaTS := 100\<rparr>)
 \<and> js_add (js_add (initChargeW CFG)
        (efAcOutW (S0\<lparr>oc := True, voltageV := 921 / 4, efAcOutW := 961, lastQuotaTS := 100\<rparr>)))
        (efStandbyW (S0\<lparr>oc := True, voltageV := 921 / 4, efAcOutW := 961, lastQuotaTS := 100\<rparr>))
    < js_mul
        (currentLimitA (S0\<lparr>oc := True, voltageV := 921 / 4, efAcOutW := 961, lastQuotaTS := 100\<rparr>))
        (voltageV (S0\<lparr>oc := True, voltageV := 921 / 4, efAcOutW := 961, lastQuotaTS := 100\<rparr>))
 \<and> 100 - lastSetTS (S0\<lparr>oc := True, voltageV := 921 / 4, efAcOutW := 961, lastQuotaTS := 100\<rparr>)
      \<ge> setThrottleSec CFG
 \<and> snd (tryRestore CFG 100
      (S0\<lparr>oc := True, voltageV := 921 / 4, efAcOutW := 961, lastQuotaTS := 100\<rparr>)) = []"
  by (simp add: tryRestore_def setEF_def maxGridW_def math_floor_def S0_def CFG_def Let_def
      js_add_def js_mul_6_230_25)

subsection \<open>The rolling window\<close>

lemma foldl_max_Max: "foldl max (a::real) xs = Max (insert a (set xs))"
proof (induction xs arbitrary: a)
  case Nil
  then show ?case by simp
next
  case (Cons x xs)
  have "Max (insert (max a x) (set xs)) = Max (insert a (insert x (set xs)))"
    by (cases "set xs = {}") (simp_all add: max.assoc)
  with Cons show ?case by simp
qed

lemma updateMaxP10s_window:
  "measurements (updateMaxP10s cfg tn s)
     = filter (\<lambda>m. tn - ts m < windowSec cfg) (measurements s)"
proof -
  have "filter (\<lambda>m. tn - windowSec cfg < ts m) (measurements s)
      = filter (\<lambda>m. tn - ts m < windowSec cfg) (measurements s)"
    by (rule filter_cong) auto
  then show ?thesis by (simp add: updateMaxP10s_eq)
qed

lemma updateMaxP10s_peak:
  "maxP10s (updateMaxP10s cfg tn s)
     = Max (insert 0 (power_w ` set (measurements (updateMaxP10s cfg tn s))))"
  by (simp add: updateMaxP10s_eq foldl_max_Max)

lemma record_all_snoc:
  "record_all cfg (cs @ [c]) s = trackPower cfg (fst c) (snd c) (record_all cfg cs s)"
  by (simp add: record_all_def)

lemma record_all_invariant:
  assumes "sorted (map snd cs)" and "(- 1, 0) \<notin> set cs"
    and "measurements s = []" and "lastTrackedPower s = - 1" and "lastTrackedTS s = 0"
  shows "if cs = []
         then measurements (record_all cfg cs s) = []
            \<and> lastTrackedPower (record_all cfg cs s) = - 1
            \<and> lastTrackedTS (record_all cfg cs s) = 0
         else (lastTrackedPower (record_all cfg cs s), lastTrackedTS (record_all cfg cs s)) = last cs
            \<and> set (measurements (record_all cfg cs s))
                = as_sample ` set (qualifying cfg (snd (last cs)) cs)"
  using assms(1,2)
proof (induction cs rule: rev_induct)
  case Nil
  with assms show ?case by (simp add: record_all_def)
next
  case (snoc c cs)
  let ?s = "record_all cfg cs s"
  from snoc.prems have srt: "sorted (map snd cs)" and le: "\<forall>x \<in> set cs. snd x \<le> snd c"
    and nin: "(- 1, 0) \<notin> set cs" and cne: "c \<noteq> (- 1, 0)"
    by (auto simp: sorted_append)
  note IH = snoc.IH [OF srt nin]
  show ?case
  proof (cases "fst c = lastTrackedPower ?s \<and> snd c = lastTrackedTS ?s")
    case True
    then have same: "record_all cfg (cs @ [c]) s = ?s"
      by (simp add: record_all_snoc trackPower_def)
    have ne: "cs \<noteq> []"
    proof
      assume "cs = []"
      with IH True have "c = (- 1, 0)" by (simp add: prod_eq_iff)
      with cne show False by simp
    qed
    with IH True have lc: "last cs = c" by (simp add: prod_eq_iff)
    with ne have "c \<in> set cs" using last_in_set by metis
    then have "set (qualifying cfg (snd c) (cs @ [c])) = set (qualifying cfg (snd c) cs)"
      by (auto simp: qualifying_def)
    with IH ne lc show ?thesis by (simp add: same)
  next
    case False
    then have rec: "record_all cfg (cs @ [c]) s
      = updateMaxP10s cfg (snd c)
          (?s\<lparr>lastTrackedPower := fst c, lastTrackedTS := snd c,
              measurements := measurements ?s @ [as_sample c]\<rparr>)"
      by (auto simp add: record_all_snoc trackPower_def as_sample_def)
    have old: "{m \<in> set (measurements ?s). snd c - ts m < windowSec cfg}
             = as_sample ` set (qualifying cfg (snd c) cs)"
    proof (cases "cs = []")
      case True
      with IH show ?thesis by (simp add: qualifying_def)
    next
      case ne: False
      with IH have m: "set (measurements ?s) = as_sample ` set (qualifying cfg (snd (last cs)) cs)"
        by simp
      from ne le have "snd (last cs) \<le> snd c" by simp
      then show ?thesis unfolding m using le
        by (auto simp: qualifying_def as_sample_def)
    qed
    have "set (measurements (record_all cfg (cs @ [c]) s))
        = {m \<in> set (measurements ?s). snd c - ts m < windowSec cfg}
          \<union> (if snd c - snd c < windowSec cfg then {as_sample c} else {})"
      unfolding rec updateMaxP10s_window by (auto simp: as_sample_def)
    also have "\<dots> = as_sample ` set (qualifying cfg (snd c) (cs @ [c]))"
      unfolding old by (auto simp: qualifying_def)
    finally show ?thesis
      by (simp add: rec updateMaxP10s_eq)
  qed
qed

text \<open>
  C6 as the script has it. \<^verbatim>\<open>updateMaxP10s\<close> at time \<open>tn\<close> keeps, in their order,
  exactly the samples younger than the window length (\<open>tn - ts < windowSec\<close>; a
  sample whose age equals the window length is dropped) and sets the peak to the
  greatest of 0 and the kept powers. Hence after any sequence of \<^verbatim>\<open>trackPower\<close>
  calls on an empty tracker, made at clock readings that do not decrease and do not
  exceed \<open>tn\<close> (and none of them the pair of power -1 and time 0, which an empty
  tracker takes for a duplicate), the window holds exactly the recorded samples
  younger than the window length, and the peak is the greatest of 0 and their
  powers.
\<close>

theorem updateMaxP10s_spec:
  "measurements (updateMaxP10s cfg tn s)
     = filter (\<lambda>m. tn - ts m < windowSec cfg) (measurements s)
 \<and> maxP10s (updateMaxP10s cfg tn s)
     = Max (insert 0 (power_w ` set (measurements (updateMaxP10s cfg tn s))))
 \<and> (sorted (map snd calls) \<and> (\<forall>c \<in> set calls. snd c \<le> tn) \<and> (- 1, 0) \<notin> set calls \<longrightarrow>
      set (measurements (updateMaxP10s cfg tn (record_all cfg calls (clearWindow s))))
        = as_sample ` set (qualifying cfg tn calls)
    \<and> maxP10s (updateMaxP10s cfg tn (record_all cfg calls (clearWindow s)))
        = Max (insert 0 (fst ` set (qualifying cfg tn calls))))"
proof -
  have seq: "set (measurements (updateMaxP10s cfg tn (record_all cfg calls (clearWindow s))))
        = as_sample ` set (qualifying cfg tn calls)"
    if a: "sorted (map snd calls)" and b: "\<forall>c \<in> set calls. snd c \<le> tn"
      and c: "(- 1, 0) \<notin> set calls"
  proof -
    let ?r = "record_all cfg calls (clearWindow s)"
    have inv: "if calls = []
         then measurements ?r = [] \<and> lastTrackedPower ?r = - 1 \<and> lastTrackedTS ?r = 0
         else (lastTrackedPower ?r, lastTrackedTS ?r) = last calls
            \<and> set (measurements ?r) = as_sample ` set (qualifying cfg (snd (last calls)) calls)"
      by (rule record_all_invariant [OF a c]) (simp_all add: clearWindow_def)
    show ?thesis
    proof (cases "calls = []")
      case True
      with inv show ?thesis by (simp add: updateMaxP10s_window qualifying_def)
    next
      case False
      with inv have m: "set (measurements ?r)
          = as_sample ` set (qualifying cfg (snd (last calls)) calls)" by simp
      from False b have "snd (last calls) \<le> tn" by simp
      then show ?thesis unfolding updateMaxP10s_window using b
        by (auto simp: m qualifying_def as_sample_def)
    qed
  qed
  have "power_w ` as_sample ` set (qualifying cfg tn calls) = fst ` set (qualifying cfg tn calls)"
    by (simp add: image_image as_sample_def)
  with seq updateMaxP10s_peak [of cfg tn "record_all cfg calls (clearWindow s)"]
  show ?thesis
    by (simp add: updateMaxP10s_window updateMaxP10s_peak [of cfg tn s])
qed

theorem updateMaxP10s_spec_witness:
  "sorted (map snd [(500, 90), (300, 91), (300, 91), (700, 95), (650, 99 :: int)])
 \<and> (- 1, 0) \<notin> set [(500, 90), (300, 91), (300, 91), (700, 95), (650 :: real, 99 :: int)]
 \<and> set (measurements (updateMaxP10s CFG 100
      (record_all CFG [(500, 90), (300, 91), (300, 91), (700, 95), (650, 99)] (clearWindow S0))))
     = {\<lparr>ts = 91, power_w = 300\<rparr>, \<lparr>ts = 95, power_w = 700\<rparr>, \<lparr>ts = 99, power_w = 650\<rparr>}
 \<and> maxP10s (updateMaxP10s CFG 100
      (record_all CFG [(500, 90), (300, 91), (300, 91), (700, 95), (650, 99)] (clearWindow S0)))
     = 700"
proof -
  let ?cs = "[(500, 90), (300, 91), (300, 91), (700, 95), (650 :: real, 99 :: int)]"
  have h: "sorted (map snd ?cs) \<and> (\<forall>c \<in> set ?cs. snd c \<le> 100) \<and> (- 1, 0) \<notin> set ?cs"
    by simp
  have q: "qualifying CFG 100 ?cs = [(300, 91), (300, 91), (700, 95), (650, 99)]"
    by (simp add: qualifying_def CFG_def)
  from updateMaxP10s_spec [of CFG 100 S0 ?cs] h
  have "set (measurements (updateMaxP10s CFG 100 (record_all CFG ?cs (clearWindow S0))))
        = as_sample ` set (qualifying CFG 100 ?cs)
    \<and> maxP10s (updateMaxP10s CFG 100 (record_all CFG ?cs (clearWindow S0)))
        = Max (insert 0 (fst ` set (qualifying CFG 100 ?cs)))"
    by blast
  then show ?thesis unfolding q using h by (simp add: as_sample_def)
qed

text \<open>
  The claim as it is written fails twice: a sample whose age is exactly the window
  length is discarded although it qualifies under \<open>tn - ts \<le> windowSec\<close>, and
  when every kept power is negative the peak is 0, not their maximum.
\<close>

lemmas win_defs = record_all_def trackPower_def updateMaxP10s_def clearWindow_def

theorem updateMaxP10s_spec_counterexample:
  "(100::int) - 90 \<le> windowSec CFG
 \<and> measurements (updateMaxP10s CFG 100 (record_all CFG [(500, 90)] (clearWindow S0))) = []
 \<and> maxP10s (updateMaxP10s CFG 100 (record_all CFG [(500, 90)] (clearWindow S0))) = 0
 \<and> measurements (updateMaxP10s CFG 100 (record_all CFG [(- 5, 100)] (clearWindow S0)))
     = [\<lparr>ts = 100, power_w = - 5\<rparr>]
 \<and> maxP10s (updateMaxP10s CFG 100 (record_all CFG [(- 5, 100)] (clearWindow S0))) = 0"
  by (simp add: win_defs S0_def CFG_def)

end
